theory Spec2Isabelle
  imports Complex_Main "HOL-Library.AList" "HOL-Library.Monad_Syntax"
begin

section \<open>Python values, events and exceptions\<close>

text \<open>
  The observability core of \<^verbatim>\<open>event-manager.py\<close> passes events around as Python
  dictionaries from strings to arbitrary values. A value is one of the shapes below;
  \<open>PObject c d\<close> is an instance of a user class named \<open>c\<close> whose \<open>__dict__\<close> is \<open>d\<close>.
  A float is read as the real number it denotes.
\<close>

datatype pyval =
    PNone
  | PBool bool
  | PInt int
  | PFloat real
  | PStr string
  | PList "pyval list"
  | PTuple "pyval list"
  | PDict "(string \<times> pyval) list"
  | PObject string "(string \<times> pyval) list"

text \<open>\<^verbatim>\<open>type(v).__name__\<close>\<close>

fun type_name :: "pyval \<Rightarrow> string" where
  "type_name PNone = ''NoneType''"
| "type_name (PBool _) = ''bool''"
| "type_name (PInt _) = ''int''"
| "type_name (PFloat _) = ''float''"
| "type_name (PStr _) = ''str''"
| "type_name (PList _) = ''list''"
| "type_name (PTuple _) = ''tuple''"
| "type_name (PDict _) = ''dict''"
| "type_name (PObject c _) = c"

text \<open>
  A dictionary keeps its keys in insertion order: an association list with distinct
  keys. \<open>k in d\<close>, \<open>d.get(k, default)\<close> and \<open>d[k] = v\<close> (which overwrites in place or
  appends at the end, as \<open>AList.update\<close> does).
\<close>

type_synonym 'v dict = "(string \<times> 'v) list"
type_synonym event = "pyval dict"

definition dict_contains :: "'v dict \<Rightarrow> string \<Rightarrow> bool" where
  "dict_contains d k = (map_of d k \<noteq> None)"

definition dict_get :: "'v dict \<Rightarrow> string \<Rightarrow> 'v \<Rightarrow> 'v" where
  "dict_get d k dflt = (case map_of d k of None \<Rightarrow> dflt | Some v \<Rightarrow> v)"

definition dict_set :: "'v dict \<Rightarrow> string \<Rightarrow> 'v \<Rightarrow> 'v dict" where
  "dict_set d k v = AList.update k v d"

text \<open>
  A raised exception object: \<open>type(e).__name__\<close>, \<open>str(e)\<close>, and whether it is an instance
  of class \<open>Exception\<close> (everything but the interpreter's exit signals such as
  \<open>KeyboardInterrupt\<close> and \<open>SystemExit\<close>). The clauses \<^verbatim>\<open>except Exception\<close> of the
  source catch exactly the instances of \<open>Exception\<close>.
\<close>

record py_exception =
  exc_class :: string
  exc_str :: string
  isinstance_Exception :: bool

section \<open>The world outside the bus\<close>

text \<open>
  Everything a subscriber or a timed operation can touch: the wall clock (the readings
  \<open>time.time()\<close> returns, in the order of the calls), the module logger's records, and
  the rest (files, subscriber state), left abstract.
\<close>

datatype log_level = DEBUG | INFO | ERROR

record 'x world =
  clock :: "nat \<Rightarrow> real"
  tick :: nat
  log_records :: "(log_level \<times> string) list"
  rest :: 'x

definition time_time :: "'x world \<Rightarrow> real \<times> 'x world" where
  "time_time w = (clock w (tick w), w\<lparr>tick := Suc (tick w)\<rparr>)"

text \<open>
  Modelled from the spec: \<^verbatim>\<open>utils.logging_config.get_module_logger\<close> is not among the
  sources; the logger it returns is taken to append one record per call and never to
  raise.
\<close>

definition logger_error :: "string \<Rightarrow> 'x world \<Rightarrow> 'x world" where
  "logger_error msg w = w\<lparr>log_records := log_records w @ [(ERROR, msg)]\<rparr>"

section \<open>Subscribers\<close>

text \<open>
  \<^verbatim>\<open>class EventSubscriber\<close>: the class name, the filter \<open>event_types\<close> and the method
  \<open>handle_event\<close>, which reads the event, acts on the world and either returns (\<open>None\<close>)
  or raises (\<open>Some e\<close>).
\<close>

record 'x subscriber =
  class_name :: string
  event_types :: "string list"
  handle_event :: "event \<Rightarrow> 'x world \<Rightarrow> py_exception option \<times> 'x world"

text \<open>\<^verbatim>\<open>self.event_types = event_types or ["*"]\<close>\<close>

definition EventSubscriber_init :: "string list option \<Rightarrow> string list" where
  "EventSubscriber_init ets =
     (case ets of None \<Rightarrow> [''*''] | Some l \<Rightarrow> if l = [] then [''*''] else l)"

text \<open>
  \<^verbatim>\<open>return "*" in self.event_types or event_type in self.event_types\<close>. The event type
  comes out of the event dictionary and may be any value; only a string equals an
  element of the filter.
\<close>

definition should_handle :: "'x subscriber \<Rightarrow> pyval \<Rightarrow> bool" where
  "should_handle s event_type =
     (''*'' \<in> set (event_types s) \<or>
      (case event_type of PStr t \<Rightarrow> t \<in> set (event_types s) | _ \<Rightarrow> False))"

section \<open>PipelineEventManager\<close>


text \<open>The message of \<^verbatim>\<open>logger.error(f"Error in subscriber {...}: {str(e)}")\<close>.\<close>

definition subscriber_error_message :: "'x subscriber \<Rightarrow> py_exception \<Rightarrow> string" where
  "subscriber_error_message s e = ''Error in subscriber '' @ class_name s @ '': '' @ exc_str e"

text \<open>
  The dispatch loop of \<open>publish_event\<close> over a subscriber list nobody changes meanwhile.
  The result is \<open>None\<close> when the loop ends, or \<open>Some e\<close> when \<open>e\<close> leaves the loop uncaught.
\<close>

fun dispatch :: "'x subscriber list \<Rightarrow> event \<Rightarrow> pyval \<Rightarrow> 'x world \<Rightarrow> py_exception option \<times> 'x world" where
  "dispatch [] event event_type w = (None, w)"
| "dispatch (s # ss) event event_type w =
     (if should_handle s event_type then
        (case handle_event s event w of
           (None, w') \<Rightarrow> dispatch ss event event_type w'
         | (Some e, w') \<Rightarrow>
             if isinstance_Exception e
             then dispatch ss event event_type (logger_error (subscriber_error_message s e) w')
             else (Some e, w'))
      else dispatch ss event event_type w)"

text \<open>\<^verbatim>\<open>if "timestamp" not in event: event["timestamp"] = time.time()\<close>\<close>

definition add_timestamp :: "event \<Rightarrow> 'x world \<Rightarrow> event \<times> 'x world" where
  "add_timestamp event w =
     (if \<not> dict_contains event ''timestamp''
      then (case time_time w of (t, w') \<Rightarrow> (dict_set event ''timestamp'' (PFloat t), w'))
      else (event, w))"

text \<open>
  \<open>publish_event\<close> returns what it raised (if anything), the caller's event dictionary
  as the call leaves it, and the world.
\<close>

definition publish_event :: "'x subscriber list \<Rightarrow> event \<Rightarrow> 'x world \<Rightarrow> py_exception option \<times> event \<times> 'x world" where
  "publish_event subscribers event w =
     (case add_timestamp event w of (event1, w1) \<Rightarrow>
        (case dispatch subscribers event1 (dict_get event1 ''event_type'' (PStr ''unknown'')) w1 of
           (r, w2) \<Rightarrow> (r, event1, w2)))"

text \<open>
  What one pass of the loop body does to the world for a subscriber that matches and
  raises nothing but instances of \<open>Exception\<close>: the handler runs, and a raised exception
  is logged.
\<close>

definition invoke :: "event \<Rightarrow> 'x world \<Rightarrow> 'x subscriber \<Rightarrow> 'x world" where
  "invoke event w s =
     (case handle_event s event w of
        (None, w') \<Rightarrow> w'
      | (Some e, w') \<Rightarrow> logger_error (subscriber_error_message s e) w')"

text \<open>No handler of the list raises anything outside class \<open>Exception\<close>.\<close>

definition raises_only_Exception :: "'x subscriber list \<Rightarrow> bool" where
  "raises_only_Exception subscribers =
     (\<forall>s \<in> set subscribers. \<forall>event w.
        (case fst (handle_event s event w) of None \<Rightarrow> True | Some e \<Rightarrow> isinstance_Exception e))"

section \<open>PipelineContext\<close>

text \<open>
  \<^verbatim>\<open>class PipelineContext\<close>. Its \<open>event_manager\<close> is the process-wide
  \<open>PipelineEventManager\<close>, whose subscriber list the operations below take as an
  argument.
\<close>

record pipeline_context =
  pipeline_id :: string
  parent_id :: "string option"
  start_time :: real
  step_times :: "real dict"

text \<open>
  \<^verbatim>\<open>__init__\<close>: \<open>pipeline_id or str(uuid.uuid4())\<close> (\<open>uuid4\<close> is the fresh identifier
  the call would draw), \<open>start_time = time.time()\<close>, \<open>step_times = {}\<close>.
\<close>

definition PipelineContext_init ::
  "string option \<Rightarrow> string option \<Rightarrow> string \<Rightarrow> 'x world \<Rightarrow> pipeline_context \<times> 'x world" where
  "PipelineContext_init pid parent uuid4 w =
     (case time_time w of (t, w') \<Rightarrow>
        (\<lparr>pipeline_id = (case pid of None \<Rightarrow> uuid4 | Some p \<Rightarrow> if p = [] then uuid4 else p),
          parent_id = parent, start_time = t, step_times = []\<rparr>, w'))"

definition opt_str :: "string option \<Rightarrow> pyval" where
  "opt_str s = (case s of None \<Rightarrow> PNone | Some x \<Rightarrow> PStr x)"

definition step_start_event :: "pipeline_context \<Rightarrow> string \<Rightarrow> event" where
  "step_start_event ctx step =
     [(''event_type'', PStr ''step_start''), (''pipeline_id'', PStr (pipeline_id ctx)),
      (''parent_id'', opt_str (parent_id ctx)), (''step'', PStr step)]"

text \<open>
  \<open>record_step_start\<close>: \<open>self.step_times[step] = time.time()\<close>, then the event is
  published. The result is what the call raised, the context and the world.
\<close>

definition record_step_start ::
  "'x subscriber list \<Rightarrow> pipeline_context \<Rightarrow> string \<Rightarrow> 'x world
   \<Rightarrow> py_exception option \<times> pipeline_context \<times> 'x world" where
  "record_step_start subscribers ctx step w =
     (case time_time w of (t, w1) \<Rightarrow>
        (case publish_event subscribers
                (step_start_event (ctx\<lparr>step_times := dict_set (step_times ctx) step t\<rparr>) step) w1 of
           (r, ev, w2) \<Rightarrow> (r, ctx\<lparr>step_times := dict_set (step_times ctx) step t\<rparr>, w2)))"

text \<open>
  The descriptor \<open>output_info\<close> of \<open>record_step_end\<close>: \<open>None\<close> for \<open>None\<close>; type and
  length for a list or tuple; type and attribute names for an object with a
  \<open>__dict__\<close>; the type alone otherwise.
\<close>

fun output_info :: "pyval \<Rightarrow> pyval" where
  "output_info PNone = PNone"
| "output_info (PList xs) = PDict [(''type'', PStr ''list''), (''length'', PInt (int (length xs)))]"
| "output_info (PTuple xs) = PDict [(''type'', PStr ''tuple''), (''length'', PInt (int (length xs)))]"
| "output_info (PObject c d) = PDict [(''type'', PStr c), (''attributes'', PList (map (\<lambda>kv. PStr (fst kv)) d))]"
| "output_info v = PDict [(''type'', PStr (type_name v))]"

text \<open>
  The dictionary \<open>record_step_end\<close> publishes, \<open>now\<close> being the reading of
  \<open>time.time()\<close>: \<open>start_time = self.step_times.get(step, self.start_time)\<close> and
  \<open>duration = time.time() - start_time\<close>.
\<close>

definition step_end_event :: "pipeline_context \<Rightarrow> string \<Rightarrow> pyval \<Rightarrow> real \<Rightarrow> event" where
  "step_end_event ctx step outputs now =
     [(''event_type'', PStr ''step_end''), (''pipeline_id'', PStr (pipeline_id ctx)),
      (''parent_id'', opt_str (parent_id ctx)), (''step'', PStr step),
      (''duration'', PFloat (now - dict_get (step_times ctx) step (start_time ctx))),
      (''output_info'', output_info outputs)]"

text \<open>
  \<open>record_step_end\<close> reads the context and never writes to it: the result is what the
  call raised and the world.
\<close>

definition record_step_end ::
  "'x subscriber list \<Rightarrow> pipeline_context \<Rightarrow> string \<Rightarrow> pyval \<Rightarrow> 'x world
   \<Rightarrow> py_exception option \<times> 'x world" where
  "record_step_end subscribers ctx step outputs w =
     (case time_time w of (t, w1) \<Rightarrow>
        (case publish_event subscribers (step_end_event ctx step outputs t) w1 of
           (r, ev, w2) \<Rightarrow> (r, w2)))"

definition error_event :: "pipeline_context \<Rightarrow> string \<Rightarrow> py_exception \<Rightarrow> event" where
  "error_event ctx step e =
     [(''event_type'', PStr ''error''), (''pipeline_id'', PStr (pipeline_id ctx)),
      (''parent_id'', opt_str (parent_id ctx)), (''step'', PStr step),
      (''error'', PStr (exc_str e)), (''error_type'', PStr (exc_class e))]"

definition record_error ::
  "'x subscriber list \<Rightarrow> pipeline_context \<Rightarrow> string \<Rightarrow> py_exception \<Rightarrow> 'x world
   \<Rightarrow> py_exception option \<times> 'x world" where
  "record_error subscribers ctx step e w =
     (case publish_event subscribers (error_event ctx step e) w of (r, ev, w2) \<Rightarrow> (r, w2))"

definition metric_event :: "pipeline_context \<Rightarrow> string \<Rightarrow> string \<Rightarrow> pyval \<Rightarrow> event" where
  "metric_event ctx step metric_name v =
     [(''event_type'', PStr ''metric''), (''pipeline_id'', PStr (pipeline_id ctx)),
      (''parent_id'', opt_str (parent_id ctx)), (''step'', PStr step),
      (''metric_name'', PStr metric_name), (''metric_value'', v)]"

definition record_metric ::
  "'x subscriber list \<Rightarrow> pipeline_context \<Rightarrow> string \<Rightarrow> string \<Rightarrow> pyval \<Rightarrow> 'x world
   \<Rightarrow> py_exception option \<times> 'x world" where
  "record_metric subscribers ctx step metric_name v w =
     (case publish_event subscribers (metric_event ctx step metric_name v) w of
        (r, ev, w2) \<Rightarrow> (r, w2))"


section \<open>step_timing\<close>

text \<open>
  The context the wrapper of \<^verbatim>\<open>step_timing.__call__\<close> works with. \<open>self_context\<close> is
  \<open>self.context\<close>; \<open>arg0\<close> is the first positional argument when there is one and it is a
  \<open>PipelineContext\<close>; \<open>kw\<close> is the keyword argument \<open>context\<close> when it is given and is a
  \<open>PipelineContext\<close>.
\<close>

definition resolve_context ::
  "pipeline_context option \<Rightarrow> pipeline_context option \<Rightarrow> pipeline_context option
   \<Rightarrow> pipeline_context option" where
  "resolve_context self_context arg0 kw =
     (if self_context = None \<and> arg0 \<noteq> None then arg0
      else if kw \<noteq> None then kw
      else self_context)"

text \<open>\<^verbatim>\<open>if context is None: context = PipelineContext()\<close>\<close>

definition acquire_context ::
  "pipeline_context option \<Rightarrow> pipeline_context option \<Rightarrow> pipeline_context option \<Rightarrow> string
   \<Rightarrow> 'x world \<Rightarrow> pipeline_context \<times> 'x world" where
  "acquire_context self_context arg0 kw uuid4 w =
     (case resolve_context self_context arg0 kw of
        None \<Rightarrow> PipelineContext_init None None uuid4 w
      | Some c \<Rightarrow> (c, w))"

text \<open>
  The clause \<^verbatim>\<open>except Exception as e: context.record_error(self.step_name, e); raise\<close>,
  entered with the exception \<open>e\<close> that left the \<open>try\<close> block.
\<close>

definition on_exception ::
  "'x subscriber list \<Rightarrow> string \<Rightarrow> py_exception \<Rightarrow> pipeline_context \<Rightarrow> 'x world
   \<Rightarrow> (py_exception + pyval) \<times> pipeline_context \<times> 'x world" where
  "on_exception subscribers step_name e ctx w =
     (if isinstance_Exception e then
        (case record_error subscribers ctx step_name e w of
           (None, w') \<Rightarrow> (Inl e, ctx, w')
         | (Some e', w') \<Rightarrow> (Inl e', ctx, w'))
      else (Inl e, ctx, w))"

text \<open>
  The wrapped function. \<open>func\<close> is the operation: it may use the context (it is handed
  the same object when the context came from its arguments) and the world, and either
  returns a value (\<open>Inr\<close>) or raises (\<open>Inl\<close>). The result of the wrapper has the same
  shape.
\<close>

definition wrapper ::
  "'x subscriber list \<Rightarrow> string \<Rightarrow> pipeline_context option \<Rightarrow> pipeline_context option
   \<Rightarrow> pipeline_context option \<Rightarrow> string
   \<Rightarrow> (pipeline_context \<Rightarrow> 'x world \<Rightarrow> (py_exception + pyval) \<times> pipeline_context \<times> 'x world)
   \<Rightarrow> 'x world \<Rightarrow> (py_exception + pyval) \<times> pipeline_context \<times> 'x world" where
  "wrapper subscribers step_name self_context arg0 kw uuid4 func w =
     (case acquire_context self_context arg0 kw uuid4 w of (ctx, w0) \<Rightarrow>
        (case record_step_start subscribers ctx step_name w0 of
           (Some e, ctx1, w1) \<Rightarrow> (Inl e, ctx1, w1)
         | (None, ctx1, w1) \<Rightarrow>
             (case func ctx1 w1 of
                (Inr result, ctx2, w2) \<Rightarrow>
                  (case record_step_end subscribers ctx2 step_name result w2 of
                     (None, w3) \<Rightarrow> (Inr result, ctx2, w3)
                   | (Some e, w3) \<Rightarrow> on_exception subscribers step_name e ctx2 w3)
              | (Inl e, ctx2, w2) \<Rightarrow> on_exception subscribers step_name e ctx2 w2)))"

section \<open>publish_event while other threads register\<close>







section \<open>MetricsCollector\<close>

text \<open>
  \<open>self.metrics\<close> is a dictionary of dictionaries of lists of dictionaries, all of them
  mutable objects that \<open>handle_event\<close> updates in place and that \<open>export_metrics\<close> must
  not share with its caller. The containers therefore live in a store: a cell is a
  dictionary or a list, an address is an index into the store (allocation appends), and
  a container holds immutable values (\<open>Val\<close>) and references to other containers
  (\<open>Ref\<close>). Keys are strings, as the source's annotations declare.
\<close>

type_synonym addr = nat

datatype hval = Val pyval | Ref addr

datatype cell = CDict "hval dict" | CList "hval list"

type_synonym heap = "cell list"

text \<open>
  Reading through a reference. \<open>None\<close> stands for the call raising: here, for a value
  that is not the kind of container the code expects.
\<close>

definition cell_dict :: "heap \<Rightarrow> hval \<Rightarrow> hval dict option" where
  "cell_dict h v =
     (case v of
        Ref a \<Rightarrow> if a < length h then (case h ! a of CDict d \<Rightarrow> Some d | CList l \<Rightarrow> None) else None
      | Val x \<Rightarrow> None)"

definition cell_list :: "heap \<Rightarrow> hval \<Rightarrow> hval list option" where
  "cell_list h v =
     (case v of
        Ref a \<Rightarrow> if a < length h then (case h ! a of CList l \<Rightarrow> Some l | CDict d \<Rightarrow> None) else None
      | Val x \<Rightarrow> None)"

text \<open>\<^verbatim>\<open>self.metrics = {}\<close> in \<open>__init__\<close>: the new store and the address of the dictionary.\<close>

definition MetricsCollector_init :: "heap \<Rightarrow> heap \<times> addr" where
  "MetricsCollector_init h = (h @ [CDict []], length h)"

definition str_of :: "pyval \<Rightarrow> string option" where
  "str_of v = (case v of PStr s \<Rightarrow> Some s | _ \<Rightarrow> None)"

text \<open>
  \<^verbatim>\<open>if pipeline_id not in self.metrics: self.metrics[pipeline_id] = {"steps": {}, "metrics": {}}\<close>
\<close>

definition ensure_pipeline :: "heap \<Rightarrow> addr \<Rightarrow> string \<Rightarrow> heap option" where
  "ensure_pipeline h self_metrics pid =
     do {
       m \<leftarrow> cell_dict h (Ref self_metrics);
       if map_of m pid = None
       then Some ((h @ [CDict [], CDict [],
                        CDict [(''steps'', Ref (length h)), (''metrics'', Ref (length h + 1))]])
                   [self_metrics := CDict (dict_set m pid (Ref (length h + 2)))])
       else Some h
     }"

text \<open>
  The two appends of \<open>handle_event\<close>, which differ in the table (\<open>kind\<close> is \<open>metrics\<close> or
  \<open>steps\<close>), the key and the record:
  \<^verbatim>\<open>if key not in self.metrics[pipeline_id][kind]: self.metrics[pipeline_id][kind][key] = []\<close>
  and then \<^verbatim>\<open>self.metrics[pipeline_id][kind][key].append({...})\<close>.
\<close>

definition append_record :: "heap \<Rightarrow> addr \<Rightarrow> string \<Rightarrow> string \<Rightarrow> string \<Rightarrow> hval dict \<Rightarrow> heap option" where
  "append_record h self_metrics pid kind key rec =
     do {
       m \<leftarrow> cell_dict h (Ref self_metrics);
       rowref \<leftarrow> map_of m pid;
       row \<leftarrow> cell_dict h rowref;
       tref \<leftarrow> map_of row kind;
       table \<leftarrow> cell_dict h tref;
       h1 \<leftarrow> (if map_of table key = None
              then (case tref of
                      Ref t \<Rightarrow> Some ((h @ [CList []])[t := CDict (dict_set table key (Ref (length h)))])
                    | Val x \<Rightarrow> None)
              else Some h);
       table1 \<leftarrow> cell_dict h1 tref;
       lref \<leftarrow> map_of table1 key;
       l \<leftarrow> cell_list h1 lref;
       (case lref of
          Ref la \<Rightarrow> Some ((h1 @ [CDict rec])[la := CList (l @ [Ref (length h1)])])
        | Val x \<Rightarrow> None)
     }"

text \<open>
  \<open>MetricsCollector.handle_event\<close>; \<open>now\<close> is the reading of \<open>time.time()\<close>. The result is
  the store after the call, or \<open>None\<close> when the event's run id, metric name or (for a
  \<open>step_end\<close>) step name is not a string, which this model leaves out.
\<close>

definition MetricsCollector_handle_event :: "event \<Rightarrow> real \<Rightarrow> heap \<Rightarrow> addr \<Rightarrow> heap option" where
  "MetricsCollector_handle_event event now h self_metrics =
     do {
       pid \<leftarrow> str_of (dict_get event ''pipeline_id'' (PStr ''unknown''));
       h1 \<leftarrow> ensure_pipeline h self_metrics pid;
       if dict_get event ''event_type'' (PStr ''unknown'') = PStr ''metric'' then
         do {
           metric_name \<leftarrow> str_of (dict_get event ''metric_name'' (PStr ''unknown''));
           append_record h1 self_metrics pid ''metrics'' metric_name
             [(''value'', Val (dict_get event ''metric_value'' (PInt 0))),
              (''step'', Val (dict_get event ''step'' (PStr ''unknown''))),
              (''timestamp'', Val (dict_get event ''timestamp'' (PFloat now)))]
         }
       else if dict_get event ''event_type'' (PStr ''unknown'') = PStr ''step_end'' then
         do {
           step \<leftarrow> str_of (dict_get event ''step'' (PStr ''unknown''));
           append_record h1 self_metrics pid ''steps'' step
             [(''duration'', Val (dict_get event ''duration'' (PInt 0))),
              (''timestamp'', Val (dict_get event ''timestamp'' (PFloat now)))]
         }
       else Some h1
     }"

text \<open>\<open>run[k]\<close> for the record at \<open>r\<close>.\<close>

definition run_field :: "heap \<Rightarrow> string \<Rightarrow> hval \<Rightarrow> hval option" where
  "run_field h k r = do { d \<leftarrow> cell_dict h r; map_of d k }"

text \<open>\<^verbatim>\<open>[run[k] for run in runs]\<close>, \<open>runs\<close> being the list at \<open>lref\<close>.\<close>

definition list_field :: "heap \<Rightarrow> string \<Rightarrow> hval \<Rightarrow> hval list option" where
  "list_field h k lref = do { runs \<leftarrow> cell_list h lref; those (map (run_field h k) runs) }"

text \<open>
  \<open>get_step_durations\<close>: \<open>{}\<close> for an unknown run, else
  \<^verbatim>\<open>{step: [run["duration"] for run in runs] for step, runs in self.metrics[pipeline_id]["steps"].items()}\<close>.
\<close>

definition get_step_durations :: "heap \<Rightarrow> addr \<Rightarrow> string \<Rightarrow> (hval list) dict option" where
  "get_step_durations h self_metrics pid =
     do {
       m \<leftarrow> cell_dict h (Ref self_metrics);
       (case map_of m pid of
          None \<Rightarrow> Some []
        | Some rowref \<Rightarrow>
            do {
              row \<leftarrow> cell_dict h rowref;
              sref \<leftarrow> map_of row ''steps'';
              steps \<leftarrow> cell_dict h sref;
              those (map (\<lambda>kv. map_option (Pair (fst kv)) (list_field h ''duration'' (snd kv)))
                       steps)
            })
     }"

definition get_metric_values :: "heap \<Rightarrow> addr \<Rightarrow> string \<Rightarrow> string \<Rightarrow> hval list option" where
  "get_metric_values h self_metrics pid metric_name =
     do {
       m \<leftarrow> cell_dict h (Ref self_metrics);
       (case map_of m pid of
          None \<Rightarrow> Some []
        | Some rowref \<Rightarrow>
            do {
              row \<leftarrow> cell_dict h rowref;
              mref \<leftarrow> map_of row ''metrics'';
              table \<leftarrow> cell_dict h mref;
              (case map_of table metric_name of
                 None \<Rightarrow> Some []
               | Some lref \<Rightarrow>
                   list_field h ''value'' lref)
            })
     }"

text \<open>
  A number as Python's \<open>sum\<close> adds it (a \<open>bool\<close> is an \<open>int\<close>); anything else makes \<open>sum\<close>
  raise \<open>TypeError\<close>.
\<close>

definition number_of :: "hval \<Rightarrow> real option" where
  "number_of v =
     (case v of
        Val (PInt i) \<Rightarrow> Some (real_of_int i)
      | Val (PFloat x) \<Rightarrow> Some x
      | Val (PBool b) \<Rightarrow> Some (if b then 1 else 0)
      | _ \<Rightarrow> None)"

definition py_sum :: "hval list \<Rightarrow> real option" where
  "py_sum vs = map_option sum_list (those (map number_of vs))"

text \<open>
  \<open>get_average_duration\<close>. The outer \<open>None\<close> is the call raising, \<open>Some None\<close> is the
  returned \<open>None\<close> ("no data"), \<open>Some (Some x)\<close> the returned float.
\<close>

definition get_average_duration :: "heap \<Rightarrow> addr \<Rightarrow> string \<Rightarrow> string \<Rightarrow> real option option" where
  "get_average_duration h self_metrics pid step =
     do {
       table \<leftarrow> get_step_durations h self_metrics pid;
       let durations = dict_get table step [] in
       if durations = [] then Some None
       else do {
         total \<leftarrow> py_sum durations;
         Some (Some (total / real (length durations)))
       }
     }"







text \<open>
  The aggregate state in the spec's words: per run, \<open>steps\<close> maps a step name to the
  ordered list of its recorded durations. \<open>recorded_durations\<close> reads that list off the
  state; \<open>None\<close> when the run is unknown or the step has no entry.
\<close>

definition recorded_durations :: "heap \<Rightarrow> addr \<Rightarrow> string \<Rightarrow> string \<Rightarrow> hval list option" where
  "recorded_durations h self_metrics pid step =
     do {
       m \<leftarrow> cell_dict h (Ref self_metrics);
       rowref \<leftarrow> map_of m pid;
       row \<leftarrow> cell_dict h rowref;
       sref \<leftarrow> map_of row ''steps'';
       steps \<leftarrow> cell_dict h sref;
       lref \<leftarrow> map_of steps step;
       list_field h ''duration'' lref
     }"

text \<open>
  References that stay inside a range of addresses: \<open>heap_closed h\<close> says that every
  reference held in a cell of \<open>h\<close> points to a cell of \<open>h\<close>, as in any Python heap.
\<close>

definition hval_in :: "nat \<Rightarrow> nat \<Rightarrow> hval \<Rightarrow> bool" where
  "hval_in lo hi v = (case v of Ref a \<Rightarrow> lo \<le> a \<and> a < hi | Val x \<Rightarrow> True)"

definition cell_vals :: "cell \<Rightarrow> hval list" where
  "cell_vals c = (case c of CList vs \<Rightarrow> vs | CDict d \<Rightarrow> map snd d)"

definition cell_in :: "nat \<Rightarrow> nat \<Rightarrow> cell \<Rightarrow> bool" where
  "cell_in lo hi c = list_all (hval_in lo hi) (cell_vals c)"

definition heap_closed :: "heap \<Rightarrow> bool" where
  "heap_closed h = list_all (cell_in 0 (length h)) h"







text \<open>
  The shape \<open>handle_event\<close> keeps \<open>self.metrics\<close> in. Every address has a role: the
  dictionary of runs, a run's row, its table of steps or of metrics, a list of step or
  metric records, a record, or a cell that is not the collector's. A store conforms to
  an assignment of roles when every cell holds what its role requires.
\<close>

datatype role =
  RRoot | RRow | RSteps | RMetrics | RStepRuns | RMetricRuns | RStepRecord | RMetricRecord | RFree

definition refs_role :: "role list \<Rightarrow> role \<Rightarrow> hval \<Rightarrow> bool" where
  "refs_role rs ro v = (case v of Ref a \<Rightarrow> a < length rs \<and> rs ! a = ro | Val x \<Rightarrow> False)"

definition dict_refs :: "role list \<Rightarrow> role \<Rightarrow> cell \<Rightarrow> bool" where
  "dict_refs rs ro c =
     (case c of CDict d \<Rightarrow> list_all (\<lambda>kv. refs_role rs ro (snd kv)) d | CList l \<Rightarrow> False)"

definition list_refs :: "role list \<Rightarrow> role \<Rightarrow> cell \<Rightarrow> bool" where
  "list_refs rs ro c = (case c of CList l \<Rightarrow> list_all (refs_role rs ro) l | CDict d \<Rightarrow> False)"

definition has_key :: "string \<Rightarrow> cell \<Rightarrow> bool" where
  "has_key k c = (case c of CDict d \<Rightarrow> map_of d k \<noteq> None | CList l \<Rightarrow> False)"

definition key_refs :: "role list \<Rightarrow> string \<Rightarrow> role \<Rightarrow> cell \<Rightarrow> bool" where
  "key_refs rs k ro c =
     (case c of
        CDict d \<Rightarrow> (case map_of d k of Some v \<Rightarrow> refs_role rs ro v | None \<Rightarrow> False)
      | CList l \<Rightarrow> False)"

fun cell_ok :: "role list \<Rightarrow> role \<Rightarrow> cell \<Rightarrow> bool" where
  "cell_ok rs RRoot c = dict_refs rs RRow c"
| "cell_ok rs RRow c = (key_refs rs ''steps'' RSteps c \<and> key_refs rs ''metrics'' RMetrics c)"
| "cell_ok rs RSteps c = dict_refs rs RStepRuns c"
| "cell_ok rs RMetrics c = dict_refs rs RMetricRuns c"
| "cell_ok rs RStepRuns c = list_refs rs RStepRecord c"
| "cell_ok rs RMetricRuns c = list_refs rs RMetricRecord c"
| "cell_ok rs RStepRecord c = has_key ''duration'' c"
| "cell_ok rs RMetricRecord c = has_key ''value'' c"
| "cell_ok rs RFree c = True"

definition conforms :: "role list \<Rightarrow> heap \<Rightarrow> bool" where
  "conforms rs h = list_all2 (cell_ok rs) rs h"

text \<open>The roles along one of the two paths of \<open>append_record\<close>.\<close>

definition path_roles :: "string \<Rightarrow> role \<Rightarrow> role \<Rightarrow> role \<Rightarrow> bool" where
  "path_roles kind tr lr rr =
     (kind = ''steps'' \<and> tr = RSteps \<and> lr = RStepRuns \<and> rr = RStepRecord \<or>
      kind = ''metrics'' \<and> tr = RMetrics \<and> lr = RMetricRuns \<and> rr = RMetricRecord)"


text \<open>
  A state of the collector: a store without dangling references in which
  \<open>self.metrics\<close> has the shape above. \<open>MetricsCollector_run\<close> is a collector handling a
  sequence of events, each with the clock reading of its call.
\<close>

definition collector_state :: "heap \<Rightarrow> addr \<Rightarrow> bool" where
  "collector_state h self_metrics =
     (heap_closed h \<and> self_metrics < length h \<and>
      (\<exists>rs. conforms rs h \<and> rs ! self_metrics = RRoot))"

fun MetricsCollector_run :: "(event \<times> real) list \<Rightarrow> heap \<Rightarrow> addr \<Rightarrow> heap option" where
  "MetricsCollector_run [] h self_metrics = Some h"
| "MetricsCollector_run (e # es) h self_metrics =
     do {
       h' \<leftarrow> MetricsCollector_handle_event (fst e) (snd e) h self_metrics;
       MetricsCollector_run es h' self_metrics
     }"

section \<open>Example inputs\<close>

text \<open>
  Subscribers whose handlers write down, in the world, their name and the event they
  were handed; \<open>failing\<close> raises after doing so.
\<close>

definition recorder :: "string \<Rightarrow> string list \<Rightarrow> (string \<times> event) list subscriber" where
  "recorder name types =
     \<lparr>class_name = name, event_types = types,
      handle_event = (\<lambda>event w. (None, w\<lparr>rest := rest w @ [(name, event)]\<rparr>))\<rparr>"

definition failing :: "string \<Rightarrow> string list \<Rightarrow> py_exception \<Rightarrow> (string \<times> event) list subscriber" where
  "failing name types e =
     \<lparr>class_name = name, event_types = types,
      handle_event = (\<lambda>event w. (Some e, w\<lparr>rest := rest w @ [(name, event)]\<rparr>))\<rparr>"

definition ValueError :: "string \<Rightarrow> py_exception" where
  "ValueError msg = \<lparr>exc_class = ''ValueError'', exc_str = msg, isinstance_Exception = True\<rparr>"

definition world0 :: "(string \<times> event) list world" where
  "world0 = \<lparr>clock = (\<lambda>n. 100 + real n), tick = 0, log_records = [], rest = []\<rparr>"

definition four_subscribers :: "(string \<times> event) list subscriber list" where
  "four_subscribers =
     [recorder ''A'' [''*''], recorder ''B'' [''metric''],
      failing ''C'' [''step_end''] (ValueError ''boom''), recorder ''D'' [''error'', ''step_end'']]"

definition ctx0 :: pipeline_context where
  "ctx0 = fst (PipelineContext_init (Some ''p1'') None ''0000'' world0)"

definition func_fail ::
  "pipeline_context \<Rightarrow> 'x world \<Rightarrow> (py_exception + pyval) \<times> pipeline_context \<times> 'x world" where
  "func_fail c w = (Inl (ValueError ''bad''), c, w)"

definition func_ok ::
  "pipeline_context \<Rightarrow> 'x world \<Rightarrow> (py_exception + pyval) \<times> pipeline_context \<times> 'x world" where
  "func_ok c w = (Inr (PList [PInt 1, PInt 2, PInt 3]), c, w)"



definition step_end_2 :: event where
  "step_end_2 = [(''event_type'', PStr ''step_end''), (''pipeline_id'', PStr ''p1''),
     (''step'', PStr ''load''), (''duration'', PFloat 2), (''timestamp'', PFloat 10)]"

definition step_end_4 :: event where
  "step_end_4 = [(''event_type'', PStr ''step_end''), (''pipeline_id'', PStr ''p1''),
     (''step'', PStr ''load''), (''duration'', PFloat 4), (''timestamp'', PFloat 20)]"

definition metric_latency :: event where
  "metric_latency = [(''event_type'', PStr ''metric''), (''pipeline_id'', PStr ''p1''),
     (''step'', PStr ''embed''), (''metric_name'', PStr ''latency_ms''),
     (''metric_value'', PFloat 120.5), (''timestamp'', PFloat 30)]"

text \<open>The store after a new collector has handled the three events above.\<close>

definition collected :: heap where
  "collected =
     [CDict [(''p1'', Ref 3)], CDict [(''load'', Ref 4)], CDict [(''latency_ms'', Ref 7)],
      CDict [(''steps'', Ref 1), (''metrics'', Ref 2)], CList [Ref 5, Ref 6],
      CDict [(''duration'', Val (PFloat 2)), (''timestamp'', Val (PFloat 10))],
      CDict [(''duration'', Val (PFloat 4)), (''timestamp'', Val (PFloat 20))],
      CList [Ref 8],
      CDict [(''value'', Val (PFloat 120.5)), (''step'', Val (PStr ''embed'')),
             (''timestamp'', Val (PFloat 30))]]"




section \<open>The bus: dispatch\<close>

lemma dispatch_filter:
  "dispatch subscribers event et w = dispatch (filter (\<lambda>s. should_handle s et) subscribers) event et w"
  by (induction subscribers arbitrary: w) (auto split: prod.splits option.splits)

lemma dispatch_foldl:
  assumes "raises_only_Exception subscribers"
  shows "dispatch subscribers event et w =
         (None, foldl (invoke event) w (filter (\<lambda>s. should_handle s et) subscribers))"
  using assms
proof (induction subscribers arbitrary: w)
  case Nil
  then show ?case by simp
next
  case (Cons s ss)
  have tl: "raises_only_Exception ss"
    using Cons.prems by (simp add: raises_only_Exception_def)
  have hd: "\<And>e w'. handle_event s event w = (Some e, w') \<Longrightarrow> isinstance_Exception e"
  proof -
    fix e w' assume h: "handle_event s event w = (Some e, w')"
    have "case fst (handle_event s event w) of None \<Rightarrow> True | Some e \<Rightarrow> isinstance_Exception e"
      using Cons.prems by (simp add: raises_only_Exception_def)
    then show "isinstance_Exception e" using h by simp
  qed
  show ?case
  proof (cases "should_handle s et")
    case False
    then show ?thesis using Cons.IH [OF tl] by simp
  next
    case True
    obtain r w' where h: "handle_event s event w = (r, w')" by (cases "handle_event s event w")
    show ?thesis
    proof (cases r)
      case None
      then show ?thesis using True h Cons.IH [OF tl] by (simp add: invoke_def)
    next
      case (Some e)
      then have "isinstance_Exception e" using hd h by simp
      then show ?thesis using True h Some Cons.IH [OF tl] by (simp add: invoke_def)
    qed
  qed
qed


lemma update_absent: "map_of d k = None \<Longrightarrow> AList.update k v d = d @ [(k, v)]"
  by (induction d) (auto split: if_splits)

lemma add_timestamp_absent:
  "\<not> dict_contains event ''timestamp'' \<Longrightarrow>
   add_timestamp event w =
     (event @ [(''timestamp'', PFloat (clock w (tick w)))], w\<lparr>tick := Suc (tick w)\<rparr>)"
  by (simp add: add_timestamp_def time_time_def dict_set_def dict_contains_def update_absent)

lemma add_timestamp_present:
  "dict_contains event ''timestamp'' \<Longrightarrow> add_timestamp event w = (event, w)"
  by (simp add: add_timestamp_def)

lemma add_timestamp_other_keys:
  "k \<noteq> ''timestamp'' \<Longrightarrow> map_of (fst (add_timestamp event w)) k = map_of event k"
  by (cases "dict_contains event ''timestamp''")
     (simp_all add: add_timestamp_absent add_timestamp_present map_add_def split: option.splits)

lemma add_timestamp_event_type:
  "dict_get (fst (add_timestamp event w)) ''event_type'' d = dict_get event ''event_type'' d"
  by (simp add: dict_get_def add_timestamp_other_keys)

lemma add_timestamp_contains:
  "dict_contains (fst (add_timestamp event w)) ''timestamp''"
  by (cases "dict_contains event ''timestamp''")
     (simp_all add: add_timestamp_absent add_timestamp_present, simp add: dict_contains_def)

lemma publish_event_filter:
  "publish_event subscribers event w =
     publish_event
       (filter (\<lambda>s. should_handle s (dict_get event ''event_type'' (PStr ''unknown''))) subscribers)
       event w"
proof -
  let ?et = "dict_get event ''event_type'' (PStr ''unknown'')"
  obtain event1 w1 where a: "add_timestamp event w = (event1, w1)"
    by (cases "add_timestamp event w")
  have et: "dict_get event1 ''event_type'' (PStr ''unknown'') = ?et"
    using add_timestamp_event_type [of event w] a by simp
  have d: "dispatch (filter (\<lambda>s. should_handle s ?et) subscribers) event1 ?et w1 =
           dispatch subscribers event1 ?et w1"
    by (rule dispatch_filter [symmetric])
  show ?thesis
    by (simp add: publish_event_def a et d)
qed

lemma publish_event_foldl:
  assumes H: "raises_only_Exception subscribers"
  shows "publish_event subscribers event w =
          (case add_timestamp event w of (event1, w1) \<Rightarrow>
             (None, event1,
              foldl (invoke event1) w1
                (filter (\<lambda>s. should_handle s (dict_get event ''event_type'' (PStr ''unknown'')))
                   subscribers)))"
proof -
  let ?et = "dict_get event ''event_type'' (PStr ''unknown'')"
  obtain event1 w1 where a: "add_timestamp event w = (event1, w1)"
    by (cases "add_timestamp event w")
  have et: "dict_get event1 ''event_type'' (PStr ''unknown'') = ?et"
    using add_timestamp_event_type [of event w] a by simp
  show ?thesis
    by (simp add: publish_event_def a et dispatch_foldl [OF H])
qed

lemma four_subscribers_raise_only_Exception: "raises_only_Exception four_subscribers"
  by (simp add: raises_only_Exception_def four_subscribers_def recorder_def failing_def
      ValueError_def)

lemma ctx0_eq:
  "ctx0 = \<lparr>pipeline_id = ''p1'', parent_id = None, start_time = 100, step_times = []\<rparr>"
  by (simp add: ctx0_def PipelineContext_init_def time_time_def world0_def)

section \<open>Claims about the bus\<close>

text \<open>
  C5. For every published event, the handlers that run are those of the registered
  subscribers for which \<open>should_handle\<close> holds of the event's type, in registration
  order: publishing to the whole list is publishing to its matching sublist, so a
  subscriber whose filter excludes the type is never invoked; and when no handler
  raises anything outside class \<open>Exception\<close>, the world after the call is the one
  obtained by invoking the matching subscribers one after the other, in registration
  order, on the (timestamped) event. \<open>should_handle\<close> holds exactly when the filter
  holds the wildcard or holds the event type itself.
\<close>

theorem publish_event_invokes_matching_in_order:
  "publish_event subscribers event w =
     publish_event
       (filter (\<lambda>s. should_handle s (dict_get event ''event_type'' (PStr ''unknown''))) subscribers)
       event w
   \<and> (raises_only_Exception subscribers \<longrightarrow>
        publish_event subscribers event w =
          (case add_timestamp event w of (event1, w1) \<Rightarrow>
             (None, event1,
              foldl (invoke event1) w1
                (filter (\<lambda>s. should_handle s (dict_get event ''event_type'' (PStr ''unknown'')))
                   subscribers))))
   \<and> (should_handle s (PStr t) \<longleftrightarrow> ''*'' \<in> set (event_types s) \<or> t \<in> set (event_types s))"
proof (intro conjI impI)
  show "publish_event subscribers event w =
        publish_event
          (filter (\<lambda>s. should_handle s (dict_get event ''event_type'' (PStr ''unknown''))) subscribers)
          event w"
    by (rule publish_event_filter)
  show "publish_event subscribers event w =
          (case add_timestamp event w of (event1, w1) \<Rightarrow>
             (None, event1,
              foldl (invoke event1) w1
                (filter (\<lambda>s. should_handle s (dict_get event ''event_type'' (PStr ''unknown'')))
                   subscribers)))"
    if "raises_only_Exception subscribers"
    by (rule publish_event_foldl [OF that])
  show "should_handle s (PStr t) \<longleftrightarrow> ''*'' \<in> set (event_types s) \<or> t \<in> set (event_types s)"
    by (simp add: should_handle_def)
qed

theorem publish_event_invokes_matching_in_order_witness:
  "raises_only_Exception four_subscribers
   \<and> fst (publish_event four_subscribers [(''event_type'', PStr ''step_end'')] world0) = None
   \<and> map fst (rest (snd (snd (publish_event four_subscribers [(''event_type'', PStr ''step_end'')] world0))))
       = [''A'', ''C'', ''D'']
   \<and> \<not> should_handle (recorder ''B'' [''metric'']) (PStr ''step_end'')"
proof -
  note inst = publish_event_invokes_matching_in_order
          [of four_subscribers "[(''event_type'', PStr ''step_end'')]" world0
              "recorder ''B'' [''metric'']" "''step_end''"]
  have run: "publish_event four_subscribers [(''event_type'', PStr ''step_end'')] world0 =
          (case add_timestamp [(''event_type'', PStr ''step_end'')] world0 of (event1, w1) \<Rightarrow>
             (None, event1,
              foldl (invoke event1) w1
                (filter (\<lambda>s. should_handle s
                    (dict_get [(''event_type'', PStr ''step_end'')] ''event_type'' (PStr ''unknown'')))
                   four_subscribers)))"
    using inst [THEN conjunct2, THEN conjunct1] four_subscribers_raise_only_Exception
    by (rule mp)
  have b: "\<not> should_handle (recorder ''B'' [''metric'']) (PStr ''step_end'')"
    using inst [THEN conjunct2, THEN conjunct2] by (simp add: recorder_def)
  have v: "(case add_timestamp [(''event_type'', PStr ''step_end'')] world0 of (event1, w1) \<Rightarrow>
             (None :: py_exception option, map fst (rest (
              foldl (invoke event1) w1
                (filter (\<lambda>s. should_handle s
                    (dict_get [(''event_type'', PStr ''step_end'')] ''event_type'' (PStr ''unknown'')))
                   four_subscribers))))) = (None, [''A'', ''C'', ''D''])"
    by (simp add: add_timestamp_def dict_contains_def dict_get_def dict_set_def time_time_def
        world0_def four_subscribers_def recorder_def failing_def ValueError_def should_handle_def
        invoke_def logger_error_def)
  show ?thesis
    using b four_subscribers_raise_only_Exception v
    by (simp add: run split: prod.splits)
qed


text \<open>
  C1. Let \<open>s\<close> be a registered subscriber that matches the published event and whose
  \<open>handle_event\<close> raises \<open>e\<close>, with \<open>pre\<close> the subscribers registered before it and
  \<open>post\<close> those registered after it, all handlers raising only instances of
  \<open>Exception\<close>. Then \<open>publish_event\<close> raises nothing to its caller; the record
  \<open>Error in subscriber <class name of s>: <str(e)>\<close> is appended to the log at level
  ERROR in the world \<open>s\<close> left behind; and every matching subscriber of \<open>post\<close> is
  then invoked, in order, with the same event \<open>event1\<close> that \<open>s\<close> was handed.
\<close>

theorem publish_event_isolates_failing_subscriber:
  assumes H: "raises_only_Exception (pre @ s # post)"
    and a: "add_timestamp event w = (event1, w1)"
    and m: "should_handle s (dict_get event ''event_type'' (PStr ''unknown''))"
    and h: "handle_event s event1
              (foldl (invoke event1) w1
                 (filter (\<lambda>s. should_handle s (dict_get event ''event_type'' (PStr ''unknown''))) pre))
            = (Some e, w')"
  shows "publish_event (pre @ s # post) event w =
           (None, event1,
            foldl (invoke event1)
              (w'\<lparr>log_records := log_records w' @
                   [(ERROR, ''Error in subscriber '' @ class_name s @ '': '' @ exc_str e)]\<rparr>)
              (filter (\<lambda>s. should_handle s (dict_get event ''event_type'' (PStr ''unknown''))) post))"
proof -
  let ?P = "\<lambda>s. should_handle s (dict_get event ''event_type'' (PStr ''unknown''))"
  have f: "filter ?P (pre @ s # post) = filter ?P pre @ s # filter ?P post"
    using m by simp
  have i: "invoke event1 (foldl (invoke event1) w1 (filter ?P pre)) s =
           w'\<lparr>log_records := log_records w' @
                [(ERROR, ''Error in subscriber '' @ class_name s @ '': '' @ exc_str e)]\<rparr>"
    by (simp add: invoke_def h logger_error_def subscriber_error_message_def)
  show ?thesis
    unfolding publish_event_foldl [OF H] a f
    by (simp add: i)
qed

theorem publish_event_isolates_failing_subscriber_witness:
  "raises_only_Exception four_subscribers
   \<and> should_handle (failing ''C'' [''step_end''] (ValueError ''boom'')) (PStr ''step_end'')
   \<and> fst (publish_event four_subscribers [(''event_type'', PStr ''step_end'')] world0) = None
   \<and> log_records (snd (snd (publish_event four_subscribers [(''event_type'', PStr ''step_end'')] world0)))
       = [(ERROR, ''Error in subscriber C: boom'')]
   \<and> rest (snd (snd (publish_event four_subscribers [(''event_type'', PStr ''step_end'')] world0)))
       = [(''A'', [(''event_type'', PStr ''step_end''), (''timestamp'', PFloat 100)]),
          (''C'', [(''event_type'', PStr ''step_end''), (''timestamp'', PFloat 100)]),
          (''D'', [(''event_type'', PStr ''step_end''), (''timestamp'', PFloat 100)])]"
proof -
  let ?ev = "[(''event_type'', PStr ''step_end'')]"
  let ?ev1 = "[(''event_type'', PStr ''step_end''), (''timestamp'', PFloat 100)]"
  let ?pre = "[recorder ''A'' [''*''], recorder ''B'' [''metric'']]"
  let ?s = "failing ''C'' [''step_end''] (ValueError ''boom'')"
  let ?post = "[recorder ''D'' [''error'', ''step_end'']]"
  have l: "four_subscribers = ?pre @ ?s # ?post"
    by (simp add: four_subscribers_def)
  have H: "raises_only_Exception (?pre @ ?s # ?post)"
    using four_subscribers_raise_only_Exception l by simp
  have a: "add_timestamp ?ev world0 = (?ev1, world0\<lparr>tick := 1\<rparr>)"
    by (simp add: add_timestamp_def dict_contains_def dict_set_def time_time_def world0_def)
  have m: "should_handle ?s (dict_get ?ev ''event_type'' (PStr ''unknown''))"
    by (simp add: should_handle_def failing_def dict_get_def)
  have h: "handle_event ?s ?ev1
              (foldl (invoke ?ev1) (world0\<lparr>tick := 1\<rparr>)
                 (filter (\<lambda>s. should_handle s (dict_get ?ev ''event_type'' (PStr ''unknown''))) ?pre))
            = (Some (ValueError ''boom''), world0\<lparr>tick := 1, rest := [(''A'', ?ev1), (''C'', ?ev1)]\<rparr>)"
    by (simp add: should_handle_def failing_def recorder_def dict_get_def invoke_def world0_def)
  show ?thesis
    unfolding l publish_event_isolates_failing_subscriber [OF H a m h]
    using H m
    by (simp add: should_handle_def failing_def recorder_def dict_get_def invoke_def world0_def
        ValueError_def)
qed

text \<open>
  C2. For every event passed to \<open>publish_event\<close>: the event the dispatch loop hands to
  the subscribers carries a timestamp; when the event came without one, it is the
  reading of the wall clock taken by the bus; when the event came with one, the event
  is left as it was.
\<close>

theorem publish_event_timestamp:
  "(case publish_event subscribers event w of (r, event', w') \<Rightarrow>
      dict_contains event' ''timestamp'' \<and>
      (if dict_contains event ''timestamp'' then event' = event
       else map_of event' ''timestamp'' = Some (PFloat (clock w (tick w)))) \<and>
      (r, w') = dispatch subscribers event' (dict_get event' ''event_type'' (PStr ''unknown''))
                  (snd (add_timestamp event w)))"
proof (cases "dict_contains event ''timestamp''")
  case True
  then show ?thesis
    by (simp add: publish_event_def add_timestamp_present split: prod.splits)
next
  case False
  then show ?thesis
    by (simp add: publish_event_def add_timestamp_absent dict_contains_def map_add_def
        split: prod.splits)
qed

theorem publish_event_timestamp_witness:
  "map_of (fst (snd (publish_event four_subscribers [(''event_type'', PStr ''step_end'')] world0)))
       ''timestamp'' = Some (PFloat 100)
   \<and> fst (snd (publish_event four_subscribers
         [(''event_type'', PStr ''metric''), (''timestamp'', PFloat 5)] world0))
       = [(''event_type'', PStr ''metric''), (''timestamp'', PFloat 5)]"
  using publish_event_timestamp
          [where subscribers = four_subscribers and event = "[(''event_type'', PStr ''step_end'')]"
             and w = world0]
        publish_event_timestamp
          [where subscribers = four_subscribers
             and event = "[(''event_type'', PStr ''metric''), (''timestamp'', PFloat 5)]"
             and w = world0]
  by (simp add: dict_contains_def world0_def split: prod.splits)

text \<open>
  C10. \<open>publish_event\<close> writes to the caller's dictionary: when the event lacks a
  timestamp, the dictionary the caller holds after the call is the old one with the key
  \<open>timestamp\<close> appended, bound to the clock reading; when it has one, the dictionary is
  unchanged. Every other key is bound after the call exactly as before it.
\<close>

theorem publish_event_mutates_only_timestamp:
  "(case publish_event subscribers event w of (r, event', w') \<Rightarrow>
      (if dict_contains event ''timestamp'' then event' = event
       else event' = event @ [(''timestamp'', PFloat (clock w (tick w)))]) \<and>
      (\<forall>k. k \<noteq> ''timestamp'' \<longrightarrow> map_of event' k = map_of event k))"
proof -
  obtain event1 w1 where a: "add_timestamp event w = (event1, w1)"
    by (cases "add_timestamp event w")
  have o: "\<forall>k. k \<noteq> ''timestamp'' \<longrightarrow> map_of event1 k = map_of event k"
    using add_timestamp_other_keys [of _ event w] a by simp
  have t: "if dict_contains event ''timestamp'' then event1 = event
       else event1 = event @ [(''timestamp'', PFloat (clock w (tick w)))]"
    using a by (auto simp: add_timestamp_absent add_timestamp_present)
  have "(if dict_contains event ''timestamp'' then event1 = event
       else event1 = event @ [(''timestamp'', PFloat (clock w (tick w)))]) \<and>
      (\<forall>k. k \<noteq> ''timestamp'' \<longrightarrow> map_of event1 k = map_of event k)"
    using o t by blast
  then show ?thesis
    unfolding publish_event_def a by (simp only: prod.case split: prod.splits) blast
qed

theorem publish_event_mutates_only_timestamp_witness:
  "fst (snd (publish_event four_subscribers
        [(''event_type'', PStr ''error''), (''step'', PStr ''load'')] world0))
     = [(''event_type'', PStr ''error''), (''step'', PStr ''load''), (''timestamp'', PFloat 100)]
   \<and> map_of (fst (snd (publish_event four_subscribers
        [(''event_type'', PStr ''error''), (''step'', PStr ''load'')] world0))) ''step''
     = Some (PStr ''load'')"
  using publish_event_mutates_only_timestamp
          [where subscribers = four_subscribers
             and event = "[(''event_type'', PStr ''error''), (''step'', PStr ''load'')]"
             and w = world0]
  by (simp add: dict_contains_def world0_def split: prod.splits)

lemmas eval_defs =
  record_step_start_def record_step_end_def record_error_def publish_event_def
  add_timestamp_def dict_contains_def dict_get_def dict_set_def time_time_def
  step_start_event_def step_end_event_def error_event_def opt_str_def
  ctx0_eq world0_def four_subscribers_def recorder_def failing_def ValueError_def
  should_handle_def logger_error_def

section \<open>Claims about the pipeline context\<close>

lemma publish_event_no_raise:
  "raises_only_Exception subscribers \<Longrightarrow> fst (publish_event subscribers event w) = None"
  by (simp add: publish_event_foldl split: prod.splits)

lemma step_times_after_start:
  "map_of (step_times (fst (snd (record_step_start subscribers ctx step w)))) =
     (map_of (step_times ctx))(step \<mapsto> clock w (tick w))"
  by (simp add: record_step_start_def time_time_def dict_set_def update_conv' split: prod.splits)

text \<open>
  C4. \<open>record_step_end\<close> raises nothing (the handlers raising only instances of
  \<open>Exception\<close>, which the bus catches). The event it publishes is \<open>step_end_event\<close> at
  the clock reading \<open>now\<close>, whose duration is \<open>now\<close> minus the start recorded for the step
  or, when the context holds no start for the step, minus the context's creation time.
  The recorded start of a step is the reading taken by the latest \<open>record_step_start\<close>
  for it (the call overwrites the entry), and a new context holds no start at all.
\<close>

theorem record_step_end_duration:
  "(raises_only_Exception subscribers \<longrightarrow>
      fst (record_step_end subscribers ctx step outputs w) = None)
   \<and> record_step_end subscribers ctx step outputs w =
       (case publish_event subscribers (step_end_event ctx step outputs (clock w (tick w)))
               (w\<lparr>tick := Suc (tick w)\<rparr>) of (r, ev, w2) \<Rightarrow> (r, w2))
   \<and> map_of (step_end_event ctx step outputs now) ''duration'' =
       Some (PFloat (now - (case map_of (step_times ctx) step of
                              Some t0 \<Rightarrow> t0 | None \<Rightarrow> start_time ctx)))
   \<and> map_of (step_times (fst (snd (record_step_start subscribers ctx step w)))) =
       (map_of (step_times ctx))(step \<mapsto> clock w (tick w))
   \<and> step_times (fst (PipelineContext_init pid parent uuid4 w)) = []
   \<and> start_time (fst (PipelineContext_init pid parent uuid4 w)) = clock w (tick w)"
proof (intro conjI impI)
  show "fst (record_step_end subscribers ctx step outputs w) = None"
    if "raises_only_Exception subscribers"
    using publish_event_no_raise [OF that]
    by (simp add: record_step_end_def split: prod.splits) (metis fst_conv)
  show "record_step_end subscribers ctx step outputs w =
       (case publish_event subscribers (step_end_event ctx step outputs (clock w (tick w)))
               (w\<lparr>tick := Suc (tick w)\<rparr>) of (r, ev, w2) \<Rightarrow> (r, w2))"
    by (simp add: record_step_end_def time_time_def)
  show "map_of (step_end_event ctx step outputs now) ''duration'' =
       Some (PFloat (now - (case map_of (step_times ctx) step of
                              Some t0 \<Rightarrow> t0 | None \<Rightarrow> start_time ctx)))"
    by (simp add: step_end_event_def dict_get_def)
  show "map_of (step_times (fst (snd (record_step_start subscribers ctx step w)))) =
       (map_of (step_times ctx))(step \<mapsto> clock w (tick w))"
    by (rule step_times_after_start)
  show "step_times (fst (PipelineContext_init pid parent uuid4 w)) = []"
    by (simp add: PipelineContext_init_def time_time_def)
  show "start_time (fst (PipelineContext_init pid parent uuid4 w)) = clock w (tick w)"
    by (simp add: PipelineContext_init_def time_time_def)
qed



theorem record_step_end_duration_witness:
  "raises_only_Exception four_subscribers
   \<and> fst (record_step_end four_subscribers ctx0 ''load'' (PList [PInt 1, PInt 2, PInt 3])
          (world0\<lparr>tick := 1\<rparr>)) = None
   \<and> map_of (step_end_event ctx0 ''load'' (PList [PInt 1, PInt 2, PInt 3]) 103) ''duration''
       = Some (PFloat 3)
   \<and> map_of (step_end_event
         (fst (snd (record_step_start four_subscribers ctx0 ''load'' (world0\<lparr>tick := 1\<rparr>))))
         ''load'' (PList [PInt 1, PInt 2, PInt 3]) 103) ''duration''
       = Some (PFloat 2)"
proof -
  note inst = record_step_end_duration
    [where subscribers = four_subscribers and ctx = ctx0 and step = "''load''"
       and outputs = "PList [PInt 1, PInt 2, PInt 3]" and w = "world0\<lparr>tick := 1\<rparr>"]
  have a: "fst (record_step_end four_subscribers ctx0 ''load'' (PList [PInt 1, PInt 2, PInt 3])
          (world0\<lparr>tick := 1\<rparr>)) = None"
    using inst [THEN conjunct1] four_subscribers_raise_only_Exception by (rule mp)
  have b: "map_of (step_end_event ctx0 ''load'' (PList [PInt 1, PInt 2, PInt 3]) 103) ''duration''
       = Some (PFloat 3)"
    using inst [where now = 103, THEN conjunct2, THEN conjunct2, THEN conjunct1]
    by (simp add: ctx0_eq)
  have s: "map_of (step_times
         (fst (snd (record_step_start four_subscribers ctx0 ''load'' (world0\<lparr>tick := 1\<rparr>)))))
         ''load'' = Some 101"
    using inst [THEN conjunct2, THEN conjunct2, THEN conjunct2, THEN conjunct1]
    by (simp add: world0_def)
  have c: "map_of (step_end_event
         (fst (snd (record_step_start four_subscribers ctx0 ''load'' (world0\<lparr>tick := 1\<rparr>))))
         ''load'' (PList [PInt 1, PInt 2, PInt 3]) 103) ''duration''
       = Some (PFloat 2)"
    using record_step_end_duration
      [where ctx = "fst (snd (record_step_start four_subscribers ctx0 ''load'' (world0\<lparr>tick := 1\<rparr>)))"
         and step = "''load''" and outputs = "PList [PInt 1, PInt 2, PInt 3]" and now = 103,
       THEN conjunct2, THEN conjunct2, THEN conjunct1]
          s
    by simp
  show ?thesis
    using a b c four_subscribers_raise_only_Exception by simp
qed




section \<open>Claims about step_timing\<close>

lemma publish_event_result_None:
  "raises_only_Exception subscribers \<Longrightarrow> publish_event subscribers event w = (r, ev, w') \<Longrightarrow>
   r = None"
  using publish_event_no_raise [of subscribers event w] by simp

lemma record_step_start_no_raise:
  "raises_only_Exception subscribers \<Longrightarrow>
   record_step_start subscribers ctx step w = (r, ctx1, w1) \<Longrightarrow> r = None"
  by (auto simp: record_step_start_def split: prod.splits dest: publish_event_result_None)

lemma record_step_end_eq:
  "raises_only_Exception subscribers \<Longrightarrow>
   record_step_end subscribers ctx step outputs w =
     (None, snd (snd (publish_event subscribers
                        (step_end_event ctx step outputs (clock w (tick w)))
                        (w\<lparr>tick := Suc (tick w)\<rparr>))))"
  by (auto simp: record_step_end_def time_time_def split: prod.splits
      dest: publish_event_result_None)

lemma record_error_eq:
  "raises_only_Exception subscribers \<Longrightarrow>
   record_error subscribers ctx step e w =
     (None, snd (snd (publish_event subscribers (error_event ctx step e) w)))"
  by (auto simp: record_error_def split: prod.splits dest: publish_event_result_None)

text \<open>
  C8. For every operation \<open>func\<close> run under the wrapper of \<open>step_timing\<close> (the handlers
  raising only instances of \<open>Exception\<close>): when \<open>func\<close> returns \<open>result\<close>, the wrapper
  publishes the \<open>step_end\<close> event built from \<open>result\<close> (its \<open>output_info\<close> describes
  \<open>result\<close>) and returns \<open>result\<close> itself; when \<open>func\<close> raises an exception \<open>e\<close>, the
  wrapper publishes the \<open>error\<close> event for \<open>e\<close> and raises that same \<open>e\<close>. Whatever
  \<open>func\<close> raises is what the wrapper raises (an exit signal outside class \<open>Exception\<close>
  passes through as well, without an event): a failure is never suppressed or replaced.
\<close>

theorem wrapper_reraises:
  assumes H: "raises_only_Exception subscribers"
    and c: "acquire_context self_context arg0 kw uuid4 w = (ctx, w0)"
    and s: "record_step_start subscribers ctx step_name w0 = (r, ctx1, w1)"
  shows "(func ctx1 w1 = (Inr result, ctx2, w2) \<longrightarrow>
            wrapper subscribers step_name self_context arg0 kw uuid4 func w =
              (Inr result, ctx2,
               snd (snd (publish_event subscribers
                           (step_end_event ctx2 step_name result (clock w2 (tick w2)))
                           (w2\<lparr>tick := Suc (tick w2)\<rparr>)))))
       \<and> (func ctx1 w1 = (Inl e, ctx2, w2) \<and> isinstance_Exception e \<longrightarrow>
            wrapper subscribers step_name self_context arg0 kw uuid4 func w =
              (Inl e, ctx2,
               snd (snd (publish_event subscribers (error_event ctx2 step_name e) w2))))
       \<and> (func ctx1 w1 = (Inl e, ctx2, w2) \<longrightarrow>
            fst (wrapper subscribers step_name self_context arg0 kw uuid4 func w) = Inl e)"
proof -
  have r: "r = None"
    using record_step_start_no_raise [OF H s] .
  show ?thesis
    using s
    by (simp add: wrapper_def c r on_exception_def record_step_end_eq [OF H]
        record_error_eq [OF H])
qed

theorem wrapper_reraises_witness:
  "raises_only_Exception four_subscribers
   \<and> isinstance_Exception (ValueError ''bad'')
   \<and> fst (wrapper four_subscribers ''load'' (Some ctx0) None None ''0001'' func_fail
            (world0\<lparr>tick := 1\<rparr>)) = Inl (ValueError ''bad'')
   \<and> map (\<lambda>p. (fst p, map_of (snd p) ''event_type''))
        (rest (snd (snd (wrapper four_subscribers ''load'' (Some ctx0) None None ''0001'' func_fail
            (world0\<lparr>tick := 1\<rparr>)))))
       = [(''A'', Some (PStr ''step_start'')), (''A'', Some (PStr ''error'')),
          (''D'', Some (PStr ''error''))]
   \<and> fst (wrapper four_subscribers ''load'' (Some ctx0) None None ''0001'' func_ok
            (world0\<lparr>tick := 1\<rparr>)) = Inr (PList [PInt 1, PInt 2, PInt 3])
   \<and> map (\<lambda>p. (fst p, map_of (snd p) ''event_type'', map_of (snd p) ''output_info''))
        (rest (snd (snd (wrapper four_subscribers ''load'' (Some ctx0) None None ''0001'' func_ok
            (world0\<lparr>tick := 1\<rparr>)))))
       = [(''A'', Some (PStr ''step_start''), None),
          (''A'', Some (PStr ''step_end''),
             Some (PDict [(''type'', PStr ''list''), (''length'', PInt 3)])),
          (''C'', Some (PStr ''step_end''),
             Some (PDict [(''type'', PStr ''list''), (''length'', PInt 3)])),
          (''D'', Some (PStr ''step_end''),
             Some (PDict [(''type'', PStr ''list''), (''length'', PInt 3)]))]"
proof -
  let ?w = "world0\<lparr>tick := 1\<rparr> :: (string \<times> event) list world"
  let ?X = "record_step_start four_subscribers ctx0 ''load'' ?w"
  note H = four_subscribers_raise_only_Exception
  have c: "acquire_context (Some ctx0) None None ''0001'' ?w = (ctx0, ?w)"
    by (simp add: acquire_context_def resolve_context_def)
  have s: "?X = (fst ?X, fst (snd ?X), snd (snd ?X))"
    by simp
  have x: "?X = (None, ctx0\<lparr>step_times := [(''load'', 101)]\<rparr>,
             \<lparr>clock = (\<lambda>n. 100 + real n), tick = 3, log_records = [],
              rest = [(''A'', [(''event_type'', PStr ''step_start''), (''pipeline_id'', PStr ''p1''),
                      (''parent_id'', PNone), (''step'', PStr ''load''),
                      (''timestamp'', PFloat 102)])]\<rparr>)"
    by (simp add: eval_defs)
  have f: "wrapper four_subscribers ''load'' (Some ctx0) None None ''0001'' func_fail ?w =
           (Inl (ValueError ''bad''), fst (snd ?X),
            snd (snd (publish_event four_subscribers
                        (error_event (fst (snd ?X)) ''load'' (ValueError ''bad'')) (snd (snd ?X)))))"
    using wrapper_reraises [OF H c s, where func = func_fail and e = "ValueError ''bad''"
        and ?ctx2.0 = "fst (snd ?X)" and ?w2.0 = "snd (snd ?X)", THEN conjunct2, THEN conjunct1]
    by (simp add: func_fail_def ValueError_def)
  have g: "wrapper four_subscribers ''load'' (Some ctx0) None None ''0001'' func_ok ?w =
           (Inr (PList [PInt 1, PInt 2, PInt 3]), fst (snd ?X),
            snd (snd (publish_event four_subscribers
                        (step_end_event (fst (snd ?X)) ''load'' (PList [PInt 1, PInt 2, PInt 3])
                           (clock (snd (snd ?X)) (tick (snd (snd ?X)))))
                        (snd (snd ?X)\<lparr>tick := Suc (tick (snd (snd ?X)))\<rparr>))))"
    using wrapper_reraises [OF H c s, where func = func_ok
        and result = "PList [PInt 1, PInt 2, PInt 3]"
        and ?ctx2.0 = "fst (snd ?X)" and ?w2.0 = "snd (snd ?X)", THEN conjunct1]
    by (simp add: func_ok_def)
  show ?thesis
    unfolding f g x
    using H by (simp add: eval_defs)
qed

section \<open>Claims about publishing during registration\<close>














section \<open>Claims about the metrics collector\<close>


lemma hval_in_mono: "hval_in lo hi v \<Longrightarrow> lo' \<le> lo \<Longrightarrow> hi \<le> hi' \<Longrightarrow> hval_in lo' hi' v"
  by (auto simp: hval_in_def split: hval.splits)

lemma cell_in_mono: "cell_in lo hi c \<Longrightarrow> lo' \<le> lo \<Longrightarrow> hi \<le> hi' \<Longrightarrow> cell_in lo' hi' c"
  by (auto simp: cell_in_def list_all_iff intro: hval_in_mono)



lemma heap_closed_nth: "heap_closed h \<Longrightarrow> a < length h \<Longrightarrow> cell_in 0 (length h) (h ! a)"
  by (simp add: heap_closed_def list_all_length)

lemma cell_dict_closed:
  "heap_closed h \<Longrightarrow> cell_dict h v = Some d \<Longrightarrow> x \<in> snd ` set d \<Longrightarrow> hval_in 0 (length h) x"
  using heap_closed_nth [of h]
  by (auto simp: cell_dict_def cell_in_def cell_vals_def list_all_iff
      split: hval.splits if_splits cell.splits)


lemma cell_list_closed:
  "heap_closed h \<Longrightarrow> cell_list h v = Some l \<Longrightarrow> x \<in> set l \<Longrightarrow> hval_in 0 (length h) x"
  using heap_closed_nth [of h]
  by (auto simp: cell_list_def cell_in_def cell_vals_def list_all_iff
      split: hval.splits if_splits cell.splits)









lemma map_of_those_map:
  "those (map (\<lambda>kv. map_option (Pair (fst kv)) (g (snd kv))) kvs) = Some table \<Longrightarrow>
   map_of table k = (case map_of kvs k of None \<Rightarrow> None | Some v \<Rightarrow> g v)"
proof (induction kvs arbitrary: table)
  case Nil
  then show ?case by simp
next
  case (Cons kv kvs)
  then show ?case
    by (cases kv) (auto split: option.splits)
qed

lemma get_step_durations_recorded:
  assumes "get_step_durations h self_metrics pid = Some table"
  shows "map_of table step = recorded_durations h self_metrics pid step"
proof -
  obtain m where m: "cell_dict h (Ref self_metrics) = Some m"
    using assms by (auto simp: get_step_durations_def split: bind_splits)
  show ?thesis
  proof (cases "map_of m pid")
    case None
    then show ?thesis
      using assms m by (simp add: get_step_durations_def recorded_durations_def)
  next
    case (Some rowref)
    then obtain row sref steps where row: "cell_dict h rowref = Some row"
      and sref: "map_of row ''steps'' = Some sref" and steps: "cell_dict h sref = Some steps"
      and th: "those (map (\<lambda>kv. map_option (Pair (fst kv)) (list_field h ''duration'' (snd kv)))
                 steps) = Some table"
      using assms m by (auto simp: get_step_durations_def split: bind_splits)
    show ?thesis
      using map_of_those_map [OF th, of step] m Some row sref steps
      by (simp add: recorded_durations_def split: option.splits)
  qed
qed


lemma update_vals: "snd ` set (AList.update k v al) \<subseteq> insert v (snd ` set al)"
  by (induction al) auto





















lemma refs_role_append: "refs_role rs ro v \<Longrightarrow> refs_role (rs @ rs') ro v"
  by (auto simp: refs_role_def nth_append split: hval.splits)

lemma cell_ok_append: "cell_ok rs ro c \<Longrightarrow> cell_ok (rs @ rs') ro c"
  by (cases ro)
     (auto simp: dict_refs_def list_refs_def key_refs_def list_all_iff
        intro: refs_role_append split: cell.splits option.splits)

lemma conforms_length: "conforms rs h \<Longrightarrow> length rs = length h"
  by (simp add: conforms_def list_all2_lengthD)

lemma conforms_nth: "conforms rs h \<Longrightarrow> a < length h \<Longrightarrow> cell_ok rs (rs ! a) (h ! a)"
  by (simp add: conforms_def list_all2_conv_all_nth)

lemma conforms_append:
  assumes "conforms rs h" "list_all2 (cell_ok (rs @ rs')) rs' cs"
  shows "conforms (rs @ rs') (h @ cs)"
proof -
  have "list_all2 (cell_ok (rs @ rs')) rs h"
    using assms(1) unfolding conforms_def
    by (rule list_all2_mono) (rule cell_ok_append)
  then show ?thesis using assms(2) by (simp add: conforms_def list_all2_appendI)
qed

lemma conforms_update:
  assumes "conforms rs h" "cell_ok rs (rs ! a) c"
  shows "conforms rs (h[a := c])"
proof -
  have "list_all2 (cell_ok rs) (rs[a := rs ! a]) (h[a := c])"
    using assms unfolding conforms_def by (intro list_all2_update_cong) simp_all
  then show ?thesis by (simp add: conforms_def)
qed

lemma those_map_exists:
  "(\<forall>x \<in> set xs. f x \<noteq> None) \<Longrightarrow> \<exists>ys. those (map f xs) = Some ys"
  by (induction xs) auto


lemma list_all_map_of:
  "list_all (\<lambda>kv. P (snd kv)) d \<Longrightarrow> map_of d k = Some v \<Longrightarrow> P v"
proof -
  assume a: "list_all (\<lambda>kv. P (snd kv)) d" and m: "map_of d k = Some v"
  have kv: "(k, v) \<in> set d" using m by (rule map_of_SomeD)
  have "\<forall>kv \<in> set d. P (snd kv)" using a by (simp add: list_all_iff)
  from bspec [OF this kv] show "P v" by simp
qed

lemma role_cell:
  "conforms rs h \<Longrightarrow> refs_role rs ro v \<Longrightarrow>
   \<exists>a. v = Ref a \<and> a < length h \<and> rs ! a = ro \<and> cell_ok rs ro (h ! a)"
  using conforms_nth [of rs h] conforms_length [of rs h]
  by (auto simp: refs_role_def split: hval.splits)

lemma role_dict:
  assumes "conforms rs h" "refs_role rs ro v" "\<And>c. cell_ok rs ro c \<Longrightarrow> dict_refs rs ro' c"
  shows "\<exists>d. cell_dict h v = Some d \<and> list_all (\<lambda>kv. refs_role rs ro' (snd kv)) d"
proof -
  obtain a where a: "v = Ref a" "a < length h" "cell_ok rs ro (h ! a)"
    using role_cell [OF assms(1,2)] by blast
  then have "dict_refs rs ro' (h ! a)" using assms(3) by simp
  then show ?thesis using a by (auto simp: dict_refs_def cell_dict_def split: cell.splits)
qed

lemma role_list:
  assumes "conforms rs h" "refs_role rs ro v" "\<And>c. cell_ok rs ro c \<Longrightarrow> list_refs rs ro' c"
  shows "\<exists>l. cell_list h v = Some l \<and> list_all (refs_role rs ro') l"
proof -
  obtain a where a: "v = Ref a" "a < length h" "cell_ok rs ro (h ! a)"
    using role_cell [OF assms(1,2)] by blast
  then have "list_refs rs ro' (h ! a)" using assms(3) by simp
  then show ?thesis using a by (auto simp: list_refs_def cell_list_def split: cell.splits)
qed

lemma role_row:
  assumes "conforms rs h" "refs_role rs RRow v"
  shows "\<exists>row s t. cell_dict h v = Some row \<and> map_of row ''steps'' = Some s \<and> refs_role rs RSteps s
           \<and> map_of row ''metrics'' = Some t \<and> refs_role rs RMetrics t"
proof -
  obtain a where a: "v = Ref a" "a < length h" "cell_ok rs RRow (h ! a)"
    using role_cell [OF assms] by blast
  then show ?thesis
    by (auto simp: key_refs_def cell_dict_def split: cell.splits option.splits)
qed

lemma role_record:
  assumes "conforms rs h" "refs_role rs ro v" "\<And>c. cell_ok rs ro c \<Longrightarrow> has_key k c"
  shows "run_field h k v \<noteq> None"
proof -
  obtain a where a: "v = Ref a" "a < length h" "cell_ok rs ro (h ! a)"
    using role_cell [OF assms(1,2)] by blast
  then have "has_key k (h ! a)" using assms(3) by simp
  then show ?thesis
    using a by (auto simp: has_key_def run_field_def cell_dict_def split: cell.splits)
qed

lemma list_field_steps:
  assumes "conforms rs h" "refs_role rs RStepRuns l"
  shows "\<exists>ds. list_field h ''duration'' l = Some ds"
proof -
  obtain runs where runs: "cell_list h l = Some runs" "list_all (refs_role rs RStepRecord) runs"
    using role_list [OF assms, of RStepRecord] by auto
  have "run_field h ''duration'' x \<noteq> None" if "x \<in> set runs" for x
  proof -
    have "refs_role rs RStepRecord x" using runs(2) that by (simp add: list_all_iff)
    then show ?thesis by (rule role_record [OF assms(1)]) simp
  qed
  then have "\<forall>x \<in> set runs. run_field h ''duration'' x \<noteq> None"
    by simp
  from those_map_exists [OF this] show ?thesis using runs(1) by (simp add: list_field_def)
qed

lemma list_field_metrics:
  assumes "conforms rs h" "refs_role rs RMetricRuns l"
  shows "\<exists>ds. list_field h ''value'' l = Some ds"
proof -
  obtain runs where runs: "cell_list h l = Some runs" "list_all (refs_role rs RMetricRecord) runs"
    using role_list [OF assms, of RMetricRecord] by auto
  have "run_field h ''value'' x \<noteq> None" if "x \<in> set runs" for x
  proof -
    have "refs_role rs RMetricRecord x" using runs(2) that by (simp add: list_all_iff)
    then show ?thesis by (rule role_record [OF assms(1)]) simp
  qed
  then have "\<forall>x \<in> set runs. run_field h ''value'' x \<noteq> None"
    by simp
  from those_map_exists [OF this] show ?thesis using runs(1) by (simp add: list_field_def)
qed

lemma conforms_root:
  assumes "conforms rs h" "self_metrics < length h" "rs ! self_metrics = RRoot"
  shows "\<exists>m. cell_dict h (Ref self_metrics) = Some m \<and> list_all (\<lambda>kv. refs_role rs RRow (snd kv)) m"
proof -
  have "refs_role rs RRoot (Ref self_metrics)"
    using assms conforms_length [OF assms(1)] by (simp add: refs_role_def)
  from role_dict [OF assms(1) this, of RRow] show ?thesis by simp
qed

lemma get_step_durations_returns:
  assumes c: "conforms rs h" and r: "self_metrics < length h" "rs ! self_metrics = RRoot"
  shows "\<exists>table. get_step_durations h self_metrics pid = Some table"
proof -
  obtain m where m: "cell_dict h (Ref self_metrics) = Some m"
      "list_all (\<lambda>kv. refs_role rs RRow (snd kv)) m"
    using conforms_root [OF c r] by blast
  show ?thesis
  proof (cases "map_of m pid")
    case None
    then show ?thesis using m by (simp add: get_step_durations_def)
  next
    case (Some rowref)
    have "refs_role rs RRow rowref"
      by (rule list_all_map_of [where P = "refs_role rs RRow", OF m(2) Some])
    then obtain row s where row: "cell_dict h rowref = Some row" "map_of row ''steps'' = Some s"
        "refs_role rs RSteps s"
      using role_row [OF c] by blast
    obtain steps where steps: "cell_dict h s = Some steps"
        "list_all (\<lambda>kv. refs_role rs RStepRuns (snd kv)) steps"
      using role_dict [OF c row(3), of RStepRuns] by auto
    have "map_option (Pair (fst kv)) (list_field h ''duration'' (snd kv)) \<noteq> None"
      if "kv \<in> set steps" for kv
    proof -
      have "refs_role rs RStepRuns (snd kv)" using steps(2) that by (simp add: list_all_iff)
      from list_field_steps [OF c this] show ?thesis by auto
    qed
    then have "\<forall>kv \<in> set steps.
        map_option (Pair (fst kv)) (list_field h ''duration'' (snd kv)) \<noteq> None"
      by simp
    from those_map_exists [OF this] obtain table where
      "those (map (\<lambda>kv. map_option (Pair (fst kv)) (list_field h ''duration'' (snd kv))) steps)
        = Some table"
      by auto
    then show ?thesis using m Some row steps by (simp add: get_step_durations_def)
  qed
qed

lemma get_metric_values_returns:
  assumes c: "conforms rs h" and r: "self_metrics < length h" "rs ! self_metrics = RRoot"
  shows "\<exists>vs. get_metric_values h self_metrics pid metric_name = Some vs"
proof -
  obtain m where m: "cell_dict h (Ref self_metrics) = Some m"
      "list_all (\<lambda>kv. refs_role rs RRow (snd kv)) m"
    using conforms_root [OF c r] by blast
  show ?thesis
  proof (cases "map_of m pid")
    case None
    then show ?thesis using m by (simp add: get_metric_values_def)
  next
    case (Some rowref)
    have "refs_role rs RRow rowref"
      by (rule list_all_map_of [where P = "refs_role rs RRow", OF m(2) Some])
    then obtain row t where row: "cell_dict h rowref = Some row" "map_of row ''metrics'' = Some t"
        "refs_role rs RMetrics t"
      using role_row [OF c] by blast
    obtain table where table: "cell_dict h t = Some table"
        "list_all (\<lambda>kv. refs_role rs RMetricRuns (snd kv)) table"
      using role_dict [OF c row(3), of RMetricRuns] by auto
    show ?thesis
    proof (cases "map_of table metric_name")
      case None
      then show ?thesis using m Some row table by (simp add: get_metric_values_def)
    next
      case l: (Some lref)
      have "refs_role rs RMetricRuns lref"
        by (rule list_all_map_of [where P = "refs_role rs RMetricRuns", OF table(2) l])
      then obtain vs where "list_field h ''value'' lref = Some vs"
        using list_field_metrics [OF c] by blast
      then show ?thesis using m Some row table l by (simp add: get_metric_values_def)
    qed
  qed
qed


lemma heap_closed_snoc:
  assumes "heap_closed h" "cell_in 0 (Suc (length h)) c"
  shows "heap_closed (h @ [c])"
proof -
  have "list_all (cell_in 0 (Suc (length h))) h"
    using assms(1) by (auto simp: heap_closed_def list_all_iff intro: cell_in_mono)
  then show ?thesis using assms(2) by (simp add: heap_closed_def)
qed

lemma heap_closed_update:
  assumes "heap_closed h" "cell_in 0 (length h) c"
  shows "heap_closed (h[a := c])"
proof -
  have "set (h[a := c]) \<subseteq> insert c (set h)" by (rule set_update_subset_insert)
  then show ?thesis using assms by (auto simp: heap_closed_def list_all_iff)
qed

lemma cell_in_dict_set:
  assumes "cell_in lo hi (CDict d)" "hval_in lo hi v"
  shows "cell_in lo hi (CDict (dict_set d k v))"
proof -
  have "snd ` set (dict_set d k v) \<subseteq> insert v (snd ` set d)"
    unfolding dict_set_def by (rule update_vals)
  moreover have "\<forall>x \<in> insert v (snd ` set d). hval_in lo hi x"
    using assms by (simp add: cell_in_def cell_vals_def list_all_iff)
  ultimately have "\<forall>x \<in> snd ` set (dict_set d k v). hval_in lo hi x"
    by (meson subsetD)
  then show ?thesis by (simp add: cell_in_def cell_vals_def list_all_iff)
qed

lemma cell_dict_in:
  "heap_closed h \<Longrightarrow> cell_dict h v = Some d \<Longrightarrow> cell_in 0 (length h) (CDict d)"
  using cell_dict_closed [of h v d] by (auto simp: cell_in_def cell_vals_def list_all_iff)

lemma cell_list_in:
  "heap_closed h \<Longrightarrow> cell_list h v = Some l \<Longrightarrow> cell_in 0 (length h) (CList l)"
  using cell_list_closed [of h v l] by (auto simp: cell_in_def cell_vals_def list_all_iff)

lemma ensure_pipeline_closed:
  assumes c: "heap_closed h" and e: "ensure_pipeline h self_metrics pid = Some h'"
  shows "heap_closed h' \<and> length h \<le> length h'"
proof -
  obtain m where m: "cell_dict h (Ref self_metrics) = Some m"
    using e by (auto simp: ensure_pipeline_def split: bind_splits)
  show ?thesis
  proof (cases "map_of m pid = None")
    case False
    then show ?thesis using e m c by (auto simp: ensure_pipeline_def)
  next
    case True
    let ?h1 = "h @ [CDict []]"
    let ?h2 = "?h1 @ [CDict []]"
    let ?h3 = "?h2 @ [CDict [(''steps'', Ref (length h)), (''metrics'', Ref (length h + 1))]]"
    have h': "h' = ?h3[self_metrics := CDict (dict_set m pid (Ref (length h + 2)))]"
      using e m True by (simp add: ensure_pipeline_def)
    have c1: "heap_closed ?h1"
      by (rule heap_closed_snoc [OF c]) (simp add: cell_in_def cell_vals_def)
    have c2: "heap_closed ?h2"
      by (rule heap_closed_snoc [OF c1]) (simp add: cell_in_def cell_vals_def)
    have c3: "heap_closed ?h3"
      by (rule heap_closed_snoc [OF c2]) (simp add: cell_in_def cell_vals_def hval_in_def)
    have "cell_in 0 (length h) (CDict m)" using cell_dict_in [OF c m] .
    then have "cell_in 0 (length ?h3) (CDict m)" by (rule cell_in_mono) simp_all
    then have "cell_in 0 (length ?h3) (CDict (dict_set m pid (Ref (length h + 2))))"
      by (rule cell_in_dict_set) (simp add: hval_in_def)
    from heap_closed_update [OF c3 this] show ?thesis by (simp add: h')
  qed
qed

lemma append_record_closed:
  assumes c: "heap_closed h" and rec: "\<And>n. cell_in 0 n (CDict rec)"
    and e: "append_record h self_metrics pid kind key rec = Some h'"
  shows "heap_closed h' \<and> length h \<le> length h'"
proof -
  obtain m rowref row tref table h1 table1 lref l where
    m: "cell_dict h (Ref self_metrics) = Some m" and rowref: "map_of m pid = Some rowref"
    and row: "cell_dict h rowref = Some row" and tref: "map_of row kind = Some tref"
    and table: "cell_dict h tref = Some table"
    and h1: "(if map_of table key = None
              then (case tref of
                      Ref t \<Rightarrow> Some ((h @ [CList []])[t := CDict (dict_set table key (Ref (length h)))])
                    | Val x \<Rightarrow> None)
              else Some h) = Some h1"
    and table1: "cell_dict h1 tref = Some table1" and lref: "map_of table1 key = Some lref"
    and l: "cell_list h1 lref = Some l"
    and h': "(case lref of
          Ref la \<Rightarrow> Some ((h1 @ [CDict rec])[la := CList (l @ [Ref (length h1)])])
        | Val x \<Rightarrow> None) = Some h'"
    using e unfolding append_record_def by (auto split: bind_splits)
  have c1: "heap_closed h1 \<and> length h \<le> length h1"
  proof (cases "map_of table key = None")
    case False
    then show ?thesis using h1 c by auto
  next
    case True
    then obtain t where t: "tref = Ref t"
      and h1': "h1 = (h @ [CList []])[t := CDict (dict_set table key (Ref (length h)))]"
      using h1 by (auto split: hval.splits)
    have c0: "heap_closed (h @ [CList []])"
      by (rule heap_closed_snoc [OF c]) (simp add: cell_in_def cell_vals_def)
    have "cell_in 0 (length h) (CDict table)" using cell_dict_in [OF c table] .
    then have "cell_in 0 (length (h @ [CList []])) (CDict table)" by (rule cell_in_mono) simp_all
    then have "cell_in 0 (length (h @ [CList []])) (CDict (dict_set table key (Ref (length h))))"
      by (rule cell_in_dict_set) (simp add: hval_in_def)
    from heap_closed_update [OF c0 this] show ?thesis by (simp add: h1')
  qed
  obtain la where la: "lref = Ref la"
    and h'': "h' = (h1 @ [CDict rec])[la := CList (l @ [Ref (length h1)])]"
    using h' by (auto split: hval.splits)
  have c2: "heap_closed (h1 @ [CDict rec])"
    by (rule heap_closed_snoc [OF c1 [THEN conjunct1]]) (rule rec)
  have "cell_in 0 (length h1) (CList l)" using cell_list_in [OF c1 [THEN conjunct1] l] .
  then have "cell_in 0 (Suc (length h1)) (CList l)" by (rule cell_in_mono) simp_all
  then have "cell_in 0 (length (h1 @ [CDict rec])) (CList (l @ [Ref (length h1)]))"
    by (simp add: cell_in_def cell_vals_def hval_in_def)
  from heap_closed_update [OF c2 this] show ?thesis using c1 by (simp add: h'')
qed

lemma MetricsCollector_handle_event_closed:
  assumes c: "heap_closed h"
    and e: "MetricsCollector_handle_event event now h self_metrics = Some h'"
  shows "heap_closed h' \<and> length h \<le> length h'"
proof -
  obtain pid h1 where h1: "ensure_pipeline h self_metrics pid = Some h1"
    and rest: "(if dict_get event ''event_type'' (PStr ''unknown'') = PStr ''metric'' then
         do {
           metric_name \<leftarrow> str_of (dict_get event ''metric_name'' (PStr ''unknown''));
           append_record h1 self_metrics pid ''metrics'' metric_name
             [(''value'', Val (dict_get event ''metric_value'' (PInt 0))),
              (''step'', Val (dict_get event ''step'' (PStr ''unknown''))),
              (''timestamp'', Val (dict_get event ''timestamp'' (PFloat now)))]
         }
       else if dict_get event ''event_type'' (PStr ''unknown'') = PStr ''step_end'' then
         do {
           step \<leftarrow> str_of (dict_get event ''step'' (PStr ''unknown''));
           append_record h1 self_metrics pid ''steps'' step
             [(''duration'', Val (dict_get event ''duration'' (PInt 0))),
              (''timestamp'', Val (dict_get event ''timestamp'' (PFloat now)))]
         }
       else Some h1) = Some h'"
    using e unfolding MetricsCollector_handle_event_def by (auto split: bind_splits)
  note c1 = ensure_pipeline_closed [OF c h1]
  have vals: "\<And>n. cell_in 0 n (CDict [(''value'', Val a), (''step'', Val b), (''timestamp'', Val d)])"
    "\<And>n. cell_in 0 n (CDict [(''duration'', Val a), (''timestamp'', Val d)])" for a b d
    by (simp_all add: cell_in_def cell_vals_def hval_in_def)
  show ?thesis
  proof (cases "dict_get event ''event_type'' (PStr ''unknown'') = PStr ''metric''")
    case True
    then obtain metric_name where
      "append_record h1 self_metrics pid ''metrics'' metric_name
         [(''value'', Val (dict_get event ''metric_value'' (PInt 0))),
          (''step'', Val (dict_get event ''step'' (PStr ''unknown''))),
          (''timestamp'', Val (dict_get event ''timestamp'' (PFloat now)))] = Some h'"
      using rest by (simp split: bind_splits)
    from append_record_closed [OF c1 [THEN conjunct1] vals(1) this] show ?thesis
      using c1 by simp
  next
    case False
    show ?thesis
    proof (cases "dict_get event ''event_type'' (PStr ''unknown'') = PStr ''step_end''")
      case True
      then obtain step where
        "append_record h1 self_metrics pid ''steps'' step
           [(''duration'', Val (dict_get event ''duration'' (PInt 0))),
            (''timestamp'', Val (dict_get event ''timestamp'' (PFloat now)))] = Some h'"
        using rest False by (simp split: bind_splits)
      from append_record_closed [OF c1 [THEN conjunct1] vals(2) this] show ?thesis
        using c1 by simp
    next
      case other: False
      then have "h' = h1" using rest False by simp
      then show ?thesis using c1 by simp
    qed
  qed
qed


lemma dict_refs_dict_set:
  assumes "dict_refs rs ro (CDict d)" "refs_role rs ro v"
  shows "dict_refs rs ro (CDict (dict_set d k v))"
proof -
  have "snd ` set (dict_set d k v) \<subseteq> insert v (snd ` set d)"
    unfolding dict_set_def by (rule update_vals)
  moreover have "\<forall>x \<in> insert v (snd ` set d). refs_role rs ro x"
    using assms by (simp add: dict_refs_def list_all_iff)
  ultimately have "\<forall>x \<in> snd ` set (dict_set d k v). refs_role rs ro x"
    by (meson subsetD)
  then show ?thesis by (simp add: dict_refs_def list_all_iff)
qed

lemma dict_refs_append: "dict_refs rs ro c \<Longrightarrow> dict_refs (rs @ rs') ro c"
  by (auto simp: dict_refs_def list_all_iff intro: refs_role_append split: cell.splits)

lemma list_refs_append: "list_refs rs ro c \<Longrightarrow> list_refs (rs @ rs') ro c"
  by (auto simp: list_refs_def list_all_iff intro: refs_role_append split: cell.splits)

lemma refs_role_new: "length rs = n \<Longrightarrow> refs_role (rs @ [ro]) ro (Ref n)"
  by (auto simp: refs_role_def)

lemma ensure_pipeline_conforms:
  assumes c: "conforms rs h" and r: "self_metrics < length h" "rs ! self_metrics = RRoot"
    and e: "ensure_pipeline h self_metrics pid = Some h'"
  shows "\<exists>rs'. conforms (rs @ rs') h'"
proof -
  note len = conforms_length [OF c]
  obtain m where m: "cell_dict h (Ref self_metrics) = Some m"
      "list_all (\<lambda>kv. refs_role rs RRow (snd kv)) m"
    using conforms_root [OF c r] by blast
  show ?thesis
  proof (cases "map_of m pid = None")
    case False
    then have "h' = h" using e m by (auto simp: ensure_pipeline_def)
    then have "conforms (rs @ []) h'" using c by simp
    then show ?thesis by blast
  next
    case True
    let ?cs = "[CDict [], CDict [],
                CDict [(''steps'', Ref (length h)), (''metrics'', Ref (length h + 1))]]"
    let ?rs' = "[RSteps, RMetrics, RRow]"
    have h': "h' = (h @ ?cs)[self_metrics := CDict (dict_set m pid (Ref (length h + 2)))]"
      using e m True by (simp add: ensure_pipeline_def)
    have "list_all2 (cell_ok (rs @ ?rs')) ?rs' ?cs"
      using len by (simp add: dict_refs_def key_refs_def refs_role_def nth_append)
    then have c1: "conforms (rs @ ?rs') (h @ ?cs)"
      by (rule conforms_append [OF c])
    have "dict_refs rs RRow (CDict m)" using m(2) by (simp add: dict_refs_def)
    then have "dict_refs (rs @ ?rs') RRow (CDict m)" by (rule dict_refs_append)
    moreover have "refs_role (rs @ ?rs') RRow (Ref (length h + 2))"
      using len by (simp add: refs_role_def nth_append)
    ultimately have "dict_refs (rs @ ?rs') RRow (CDict (dict_set m pid (Ref (length h + 2))))"
      by (rule dict_refs_dict_set)
    moreover have "(rs @ ?rs') ! self_metrics = RRoot"
      using r len by (simp add: nth_append)
    ultimately have "cell_ok (rs @ ?rs') ((rs @ ?rs') ! self_metrics)
        (CDict (dict_set m pid (Ref (length h + 2))))"
      by simp
    from conforms_update [OF c1 this] show ?thesis unfolding h' by blast
  qed
qed

lemma path_roles_cells:
  assumes "path_roles kind tr lr rr"
  shows "cell_ok rs tr c = dict_refs rs lr c" "cell_ok rs lr c = list_refs rs rr c"
    "cell_ok rs RRow c \<Longrightarrow> key_refs rs kind tr c"
  using assms by (auto simp: path_roles_def)

lemma append_record_conforms:
  assumes c: "conforms rs h" and r: "self_metrics < length h" "rs ! self_metrics = RRoot"
    and p: "path_roles kind tr lr rr"
    and rec: "\<And>rs0. cell_ok rs0 rr (CDict rec)"
    and e: "append_record h self_metrics pid kind key rec = Some h'"
  shows "\<exists>rs'. conforms (rs @ rs') h'"
proof -
  note len = conforms_length [OF c]
  obtain m rowref row tref table h1 table1 lref l where
    m: "cell_dict h (Ref self_metrics) = Some m" and rowref: "map_of m pid = Some rowref"
    and row: "cell_dict h rowref = Some row" and tref: "map_of row kind = Some tref"
    and table: "cell_dict h tref = Some table"
    and h1: "(if map_of table key = None
              then (case tref of
                      Ref t \<Rightarrow> Some ((h @ [CList []])[t := CDict (dict_set table key (Ref (length h)))])
                    | Val x \<Rightarrow> None)
              else Some h) = Some h1"
    and table1: "cell_dict h1 tref = Some table1" and lref: "map_of table1 key = Some lref"
    and l: "cell_list h1 lref = Some l"
    and h': "(case lref of
          Ref la \<Rightarrow> Some ((h1 @ [CDict rec])[la := CList (l @ [Ref (length h1)])])
        | Val x \<Rightarrow> None) = Some h'"
    using e unfolding append_record_def by (auto split: bind_splits)
  obtain m' where m': "cell_dict h (Ref self_metrics) = Some m'"
      "list_all (\<lambda>kv. refs_role rs RRow (snd kv)) m'"
    using conforms_root [OF c r] by blast
  have "refs_role rs RRow rowref"
    using m m' by (intro list_all_map_of [where P = "refs_role rs RRow", OF _ rowref]) simp
  then obtain ra where ra: "rowref = Ref ra" "ra < length h" "cell_ok rs RRow (h ! ra)"
    using role_cell [OF c] by blast
  have "key_refs rs kind tr (h ! ra)" using path_roles_cells(3) [OF p ra(3)] .
  moreover have "h ! ra = CDict row"
    using row ra by (auto simp: cell_dict_def split: cell.splits)
  ultimately have tr: "refs_role rs tr tref"
    using tref by (simp add: key_refs_def)
  then obtain t where t: "tref = Ref t" "t < length h" "cell_ok rs tr (h ! t)" "rs ! t = tr"
    using role_cell [OF c] by blast
  have ht: "h ! t = CDict table"
    using table t by (auto simp: cell_dict_def split: cell.splits)
  have dt: "dict_refs rs lr (CDict table)"
    using t(3) ht path_roles_cells(1) [OF p] by simp
  obtain rs1 where c1: "conforms (rs @ rs1) h1"
  proof (cases "map_of table key = None")
    case False
    then have "h1 = h" using h1 by auto
    then have "conforms (rs @ []) h1" using c by simp
    then show ?thesis using that by blast
  next
    case True
    then have h1': "h1 = (h @ [CList []])[t := CDict (dict_set table key (Ref (length h)))]"
      using h1 t by simp
    have "cell_ok (rs @ [lr]) lr (CList [])"
      using path_roles_cells(2) [OF p] by (simp add: list_refs_def)
    then have c0: "conforms (rs @ [lr]) (h @ [CList []])"
      by (intro conforms_append [OF c]) simp
    have "dict_refs (rs @ [lr]) lr (CDict table)" using dt by (rule dict_refs_append)
    moreover have "refs_role (rs @ [lr]) lr (Ref (length h))"
      using len by (rule refs_role_new)
    ultimately have "dict_refs (rs @ [lr]) lr (CDict (dict_set table key (Ref (length h))))"
      by (rule dict_refs_dict_set)
    moreover have "(rs @ [lr]) ! t = tr" using t len by (simp add: nth_append)
    ultimately have "cell_ok (rs @ [lr]) ((rs @ [lr]) ! t)
        (CDict (dict_set table key (Ref (length h))))"
      using path_roles_cells(1) [OF p] by simp
    from conforms_update [OF c0 this] show ?thesis using that unfolding h1' by blast
  qed
  note len1 = conforms_length [OF c1]
  have t1: "refs_role (rs @ rs1) tr tref" using tr by (rule refs_role_append)
  then obtain t' where t': "tref = Ref t'" "t' < length h1" "cell_ok (rs @ rs1) tr (h1 ! t')"
    using role_cell [OF c1] by blast
  have "h1 ! t' = CDict table1"
    using table1 t' by (auto simp: cell_dict_def split: cell.splits)
  then have "dict_refs (rs @ rs1) lr (CDict table1)"
    using t'(3) path_roles_cells(1) [OF p] by simp
  then have "refs_role (rs @ rs1) lr lref"
    by (intro list_all_map_of [where P = "refs_role (rs @ rs1) lr", OF _ lref])
       (simp add: dict_refs_def)
  then obtain la where la: "lref = Ref la" "la < length h1" "cell_ok (rs @ rs1) lr (h1 ! la)"
      "(rs @ rs1) ! la = lr"
    using role_cell [OF c1] by blast
  have hl: "h1 ! la = CList l"
    using l la by (auto simp: cell_list_def split: cell.splits)
  have dl: "list_refs (rs @ rs1) rr (CList l)"
    using la(3) hl path_roles_cells(2) [OF p] by simp
  have h'': "h' = (h1 @ [CDict rec])[la := CList (l @ [Ref (length h1)])]"
    using h' la by simp
  let ?rs2 = "(rs @ rs1) @ [rr]"
  have c2: "conforms ?rs2 (h1 @ [CDict rec])"
    by (intro conforms_append [OF c1]) (simp add: rec)
  have "list_refs ?rs2 rr (CList l)" using dl by (rule list_refs_append)
  moreover have "refs_role ?rs2 rr (Ref (length h1))"
    using len1 by (rule refs_role_new)
  ultimately have "list_refs ?rs2 rr (CList (l @ [Ref (length h1)]))"
    by (simp add: list_refs_def)
  moreover have "?rs2 ! la = lr"
  proof -
    have "la < length (rs @ rs1)" using la(2) len1 by simp
    then have "?rs2 ! la = (rs @ rs1) ! la" by (rule nth_append_left)
    then show ?thesis using la(4) by simp
  qed
  ultimately have "cell_ok ?rs2 (?rs2 ! la) (CList (l @ [Ref (length h1)]))"
    using path_roles_cells(2) [OF p] by simp
  from conforms_update [OF c2 this] have "conforms (rs @ (rs1 @ [rr])) h'"
    unfolding h'' by simp
  then show ?thesis by blast
qed

lemma MetricsCollector_handle_event_conforms:
  assumes c: "conforms rs h" and r: "self_metrics < length h" "rs ! self_metrics = RRoot"
    and e: "MetricsCollector_handle_event event now h self_metrics = Some h'"
  shows "\<exists>rs'. conforms (rs @ rs') h'"
proof -
  obtain pid h1 where h1: "ensure_pipeline h self_metrics pid = Some h1"
    and rest: "(if dict_get event ''event_type'' (PStr ''unknown'') = PStr ''metric'' then
         do {
           metric_name \<leftarrow> str_of (dict_get event ''metric_name'' (PStr ''unknown''));
           append_record h1 self_metrics pid ''metrics'' metric_name
             [(''value'', Val (dict_get event ''metric_value'' (PInt 0))),
              (''step'', Val (dict_get event ''step'' (PStr ''unknown''))),
              (''timestamp'', Val (dict_get event ''timestamp'' (PFloat now)))]
         }
       else if dict_get event ''event_type'' (PStr ''unknown'') = PStr ''step_end'' then
         do {
           step \<leftarrow> str_of (dict_get event ''step'' (PStr ''unknown''));
           append_record h1 self_metrics pid ''steps'' step
             [(''duration'', Val (dict_get event ''duration'' (PInt 0))),
              (''timestamp'', Val (dict_get event ''timestamp'' (PFloat now)))]
         }
       else Some h1) = Some h'"
    using e unfolding MetricsCollector_handle_event_def by (auto split: bind_splits)
  obtain rs1 where c1: "conforms (rs @ rs1) h1"
    using ensure_pipeline_conforms [OF c r h1] by blast
  have len: "length rs = length h" using conforms_length [OF c] .
  have r1: "self_metrics < length h1" "(rs @ rs1) ! self_metrics = RRoot"
    using r len conforms_length [OF c1] by (simp_all add: nth_append)
  have app: "\<exists>rs'. conforms (rs @ rs') h'"
    if pr: "path_roles kind tr lr rr" and rc: "\<And>rs0. cell_ok rs0 rr (CDict rec)"
      and ar: "append_record h1 self_metrics pid kind key rec = Some h'"
    for kind tr lr rr rec key
  proof -
    obtain rs2 where "conforms ((rs @ rs1) @ rs2) h'"
      using append_record_conforms [OF c1 r1 pr rc ar] by blast
    then have "conforms (rs @ (rs1 @ rs2)) h'" by simp
    then show ?thesis by blast
  qed
  show ?thesis
  proof (cases "dict_get event ''event_type'' (PStr ''unknown'') = PStr ''metric''")
    case True
    then obtain metric_name where a:
      "append_record h1 self_metrics pid ''metrics'' metric_name
         [(''value'', Val (dict_get event ''metric_value'' (PInt 0))),
          (''step'', Val (dict_get event ''step'' (PStr ''unknown''))),
          (''timestamp'', Val (dict_get event ''timestamp'' (PFloat now)))] = Some h'"
      using rest by (simp split: bind_splits)
    show ?thesis
      by (rule app [OF _ _ a, of RMetrics RMetricRuns RMetricRecord])
         (simp_all add: path_roles_def has_key_def)
  next
    case False
    show ?thesis
    proof (cases "dict_get event ''event_type'' (PStr ''unknown'') = PStr ''step_end''")
      case True
      then obtain step where a:
        "append_record h1 self_metrics pid ''steps'' step
           [(''duration'', Val (dict_get event ''duration'' (PInt 0))),
            (''timestamp'', Val (dict_get event ''timestamp'' (PFloat now)))] = Some h'"
        using rest False by (simp split: bind_splits)
      show ?thesis
        by (rule app [OF _ _ a, of RSteps RStepRuns RStepRecord])
           (simp_all add: path_roles_def has_key_def)
    next
      case other: False
      then have "h' = h1" using rest False by simp
      then show ?thesis using c1 by blast
    qed
  qed
qed

lemma MetricsCollector_handle_event_state:
  assumes "collector_state h self_metrics"
    and e: "MetricsCollector_handle_event event now h self_metrics = Some h'"
  shows "collector_state h' self_metrics"
proof -
  obtain rs where c: "heap_closed h" and r: "self_metrics < length h"
    and rs: "conforms rs h" "rs ! self_metrics = RRoot"
    using assms(1) by (auto simp: collector_state_def)
  note cl = MetricsCollector_handle_event_closed [OF c e]
  obtain rs' where c': "conforms (rs @ rs') h'"
    using MetricsCollector_handle_event_conforms [OF rs(1) r rs(2) e] by blast
  have "(rs @ rs') ! self_metrics = RRoot"
    using r rs conforms_length [OF rs(1)] by (simp add: nth_append)
  then show ?thesis using cl r c' unfolding collector_state_def by auto
qed

lemma MetricsCollector_init_state: "collector_state [CDict []] 0"
proof -
  have "conforms [RRoot] [CDict []]" by (simp add: conforms_def dict_refs_def)
  moreover have "heap_closed [CDict []]" by (simp add: heap_closed_def cell_in_def cell_vals_def)
  ultimately show ?thesis unfolding collector_state_def by force
qed

lemma MetricsCollector_run_state:
  "collector_state h self_metrics \<Longrightarrow> MetricsCollector_run es h self_metrics = Some h' \<Longrightarrow>
   collector_state h' self_metrics"
proof (induction es arbitrary: h)
  case Nil
  then show ?case by simp
next
  case (Cons e es)
  then obtain h1 where h1: "MetricsCollector_handle_event (fst e) (snd e) h self_metrics = Some h1"
    and r: "MetricsCollector_run es h1 self_metrics = Some h'"
    by (auto split: bind_splits)
  from Cons.IH [OF MetricsCollector_handle_event_state [OF Cons.prems(1) h1] r] show ?case .
qed

lemma collector_state_returns:
  assumes "collector_state h self_metrics"
  shows "\<exists>table. get_step_durations h self_metrics pid = Some table"
    and "\<exists>vs. get_metric_values h self_metrics pid metric_name = Some vs"
proof -
  obtain rs where r: "self_metrics < length h" and rs: "conforms rs h" "rs ! self_metrics = RRoot"
    using assms by (auto simp: collector_state_def)
  show "\<exists>table. get_step_durations h self_metrics pid = Some table"
    by (rule get_step_durations_returns [OF rs(1) r rs(2)])
  show "\<exists>vs. get_metric_values h self_metrics pid metric_name = Some vs"
    by (rule get_metric_values_returns [OF rs(1) r rs(2)])
qed


lemma collected_by_run:
  "(case MetricsCollector_init [] of (h0, self_metrics) \<Rightarrow>
      (h0, self_metrics,
       MetricsCollector_run [(step_end_2, 0), (step_end_4, 0), (metric_latency, 0)] h0 self_metrics))
   = ([CDict []], 0, Some collected)"
  by (simp add: MetricsCollector_init_def MetricsCollector_handle_event_def ensure_pipeline_def
      append_record_def cell_dict_def cell_list_def str_of_def dict_get_def dict_set_def
      step_end_2_def step_end_4_def metric_latency_def collected_def)

lemma collected_state: "collector_state collected 0"
proof -
  have "MetricsCollector_run [(step_end_2, 0), (step_end_4, 0), (metric_latency, 0)] [CDict []] 0
        = Some collected"
    using collected_by_run by (simp add: MetricsCollector_init_def)
  from MetricsCollector_run_state [OF MetricsCollector_init_state this] show ?thesis .
qed

lemmas metrics_eval_defs =
  get_average_duration_def get_step_durations_def get_metric_values_def recorded_durations_def
  list_field_def run_field_def cell_dict_def cell_list_def py_sum_def number_of_def
  dict_get_def

text \<open>
  C6. For every state of the collector (every state it reaches by handling events is
  one, see \<open>MetricsCollector_run_state\<close>), every run id and step name:
  \<open>get_average_duration\<close> returns the sum of the durations recorded for that step under
  that run divided by their number when there is at least one (they must be numbers for
  Python's \<open>sum\<close> to add them), and returns \<open>None\<close>, which is neither zero nor an
  exception, when the run is unknown or nothing is recorded for the step.
\<close>

theorem get_average_duration_is_mean:
  assumes "collector_state h self_metrics"
  shows "get_average_duration h self_metrics pid step =
           (case recorded_durations h self_metrics pid step of
              None \<Rightarrow> Some None
            | Some ds \<Rightarrow>
                if ds = [] then Some None
                else (case those (map number_of ds) of
                        None \<Rightarrow> None
                      | Some xs \<Rightarrow> Some (Some (sum_list xs / real (length xs)))))
         \<and> (cell_dict h (Ref self_metrics) = Some m \<and> map_of m pid = None \<longrightarrow>
              get_average_duration h self_metrics pid step = Some None)"
proof -
  obtain table where table: "get_step_durations h self_metrics pid = Some table"
    using collector_state_returns(1) [OF assms] by blast
  have len: "length xs = length ds" if "those (map number_of ds) = Some xs" for xs ds
    using that
  proof (induction ds arbitrary: xs)
    case Nil
    then show ?case by simp
  next
    case (Cons d ds)
    then show ?case by (auto split: option.splits)
  qed
  have a: "get_average_duration h self_metrics pid step =
           (case recorded_durations h self_metrics pid step of
              None \<Rightarrow> Some None
            | Some ds \<Rightarrow>
                if ds = [] then Some None
                else (case those (map number_of ds) of
                        None \<Rightarrow> None
                      | Some xs \<Rightarrow> Some (Some (sum_list xs / real (length xs)))))"
    using get_step_durations_recorded [OF table, of step] len
    by (auto simp: get_average_duration_def table dict_get_def py_sum_def
        split: option.splits)
  have b: "get_average_duration h self_metrics pid step = Some None"
    if "cell_dict h (Ref self_metrics) = Some m" "map_of m pid = None"
    using that by (simp add: a recorded_durations_def)
  show ?thesis using a b by blast
qed

theorem get_average_duration_is_mean_witness:
  "collector_state collected 0
   \<and> get_step_durations collected 0 ''p1'' = Some [(''load'', [Val (PFloat 2), Val (PFloat 4)])]
   \<and> get_average_duration collected 0 ''p1'' ''load'' = Some (Some 3)
   \<and> get_average_duration collected 0 ''p1'' ''parse'' = Some None
   \<and> get_average_duration collected 0 ''p2'' ''load'' = Some None
   \<and> get_step_durations collected 0 ''p2'' = Some []"
proof -
  have g1: "get_step_durations collected 0 ''p1'' = Some [(''load'', [Val (PFloat 2), Val (PFloat 4)])]"
    by (simp add: metrics_eval_defs collected_def)
  have g2: "get_step_durations collected 0 ''p2'' = Some []"
    by (simp add: metrics_eval_defs collected_def)
  have r1: "recorded_durations collected 0 ''p1'' ''load'' = Some [Val (PFloat 2), Val (PFloat 4)]"
    by (simp add: metrics_eval_defs collected_def)
  have r2: "recorded_durations collected 0 ''p1'' ''parse'' = None"
    by (simp add: metrics_eval_defs collected_def)
  have m: "cell_dict collected (Ref 0) = Some [(''p1'', Ref 3)]"
    by (simp add: cell_dict_def collected_def)
  note s = collected_state
  have a1: "get_average_duration collected 0 ''p1'' ''load'' = Some (Some 3)"
    using get_average_duration_is_mean [OF s, where pid = "''p1''" and step = "''load''",
        THEN conjunct1]
    by (simp add: r1 number_of_def)
  have a2: "get_average_duration collected 0 ''p1'' ''parse'' = Some None"
    using get_average_duration_is_mean [OF s, where pid = "''p1''" and step = "''parse''",
        THEN conjunct1]
    by (simp add: r2)
  have a3: "get_average_duration collected 0 ''p2'' ''load'' = Some None"
    using get_average_duration_is_mean [OF s, where pid = "''p2''" and step = "''load''"
        and m = "[(''p1'', Ref 3)]", THEN conjunct2] m
    by simp
  show ?thesis by (intro conjI s g1 g2 a1 a2 a3)
qed



end
